theory Spec2Isabelle
  imports Complex_Main
begin

section \<open>JavaScript numbers\<close>

text \<open>
  The calculation engine of \<^verbatim>\<open>src/App.jsx\<close> computes with JavaScript numbers. They
  are modelled by a type with the finite values and the three special values of the
  language. Arithmetic on finite values is exact real arithmetic: rounding, overflow to an
  infinity and underflow are not modelled, and the two zeros of the language are one value.
  Everything else follows the language: an invalid operation gives \<open>NaN\<close>, \<open>NaN\<close>
  spreads through every operation, and every comparison with \<open>NaN\<close> is false.
  Where a non-zero number is divided by zero the sign of the infinity is the one the
  language gives for a positive zero.
\<close>

datatype jsnum = Fin real | PInf | NInf | NaN

instantiation jsnum :: "{plus, uminus, minus, times, inverse, abs, ord}"
begin

fun plus_jsnum :: "jsnum \<Rightarrow> jsnum \<Rightarrow> jsnum" where
  "Fin x + Fin y = Fin (x + y)"
| "Fin x + PInf = PInf"
| "Fin x + NInf = NInf"
| "PInf + Fin y = PInf"
| "PInf + PInf = PInf"
| "PInf + NInf = NaN"
| "NInf + Fin y = NInf"
| "NInf + PInf = NaN"
| "NInf + NInf = NInf"
| "NaN + y = NaN"
| "x + NaN = NaN"

fun uminus_jsnum :: "jsnum \<Rightarrow> jsnum" where
  "- Fin x = Fin (- x)"
| "- PInf = NInf"
| "- NInf = PInf"
| "- NaN = NaN"

definition minus_jsnum :: "jsnum \<Rightarrow> jsnum \<Rightarrow> jsnum" where
  "x - y = x + (- y)" for x y :: jsnum

fun times_jsnum :: "jsnum \<Rightarrow> jsnum \<Rightarrow> jsnum" where
  "Fin x * Fin y = Fin (x * y)"
| "Fin x * PInf = (if x = 0 then NaN else if 0 < x then PInf else NInf)"
| "Fin x * NInf = (if x = 0 then NaN else if 0 < x then NInf else PInf)"
| "PInf * Fin y = (if y = 0 then NaN else if 0 < y then PInf else NInf)"
| "NInf * Fin y = (if y = 0 then NaN else if 0 < y then NInf else PInf)"
| "PInf * PInf = PInf"
| "PInf * NInf = NInf"
| "NInf * PInf = NInf"
| "NInf * NInf = PInf"
| "NaN * y = NaN"
| "x * NaN = NaN"

fun divide_jsnum :: "jsnum \<Rightarrow> jsnum \<Rightarrow> jsnum" where
  "divide_jsnum (Fin x) (Fin y) =
     (if y = 0 then (if x = 0 then NaN else if 0 < x then PInf else NInf)
      else Fin (x / y))"
| "divide_jsnum (Fin x) PInf = Fin 0"
| "divide_jsnum (Fin x) NInf = Fin 0"
| "divide_jsnum PInf (Fin y) = (if 0 \<le> y then PInf else NInf)"
| "divide_jsnum NInf (Fin y) = (if 0 \<le> y then NInf else PInf)"
| "divide_jsnum PInf PInf = NaN"
| "divide_jsnum PInf NInf = NaN"
| "divide_jsnum NInf PInf = NaN"
| "divide_jsnum NInf NInf = NaN"
| "divide_jsnum NaN y = NaN"
| "divide_jsnum x NaN = NaN"

definition inverse_jsnum :: "jsnum \<Rightarrow> jsnum" where
  "inverse x = divide (Fin 1) x" for x :: jsnum

fun abs_jsnum :: "jsnum \<Rightarrow> jsnum" where
  "\<bar>Fin x\<bar> = Fin \<bar>x\<bar>"
| "\<bar>PInf\<bar> = PInf"
| "\<bar>NInf\<bar> = PInf"
| "\<bar>NaN\<bar> = NaN"

fun less_eq_jsnum :: "jsnum \<Rightarrow> jsnum \<Rightarrow> bool" where
  "Fin x \<le> Fin y \<longleftrightarrow> x \<le> y"
| "Fin x \<le> PInf \<longleftrightarrow> True"
| "Fin x \<le> NInf \<longleftrightarrow> False"
| "PInf \<le> Fin y \<longleftrightarrow> False"
| "PInf \<le> PInf \<longleftrightarrow> True"
| "PInf \<le> NInf \<longleftrightarrow> False"
| "NInf \<le> Fin y \<longleftrightarrow> True"
| "NInf \<le> PInf \<longleftrightarrow> True"
| "NInf \<le> NInf \<longleftrightarrow> True"
| "NaN \<le> y \<longleftrightarrow> False"
| "x \<le> NaN \<longleftrightarrow> False"

fun less_jsnum :: "jsnum \<Rightarrow> jsnum \<Rightarrow> bool" where
  "Fin x < Fin y \<longleftrightarrow> x < y"
| "Fin x < PInf \<longleftrightarrow> True"
| "Fin x < NInf \<longleftrightarrow> False"
| "PInf < Fin y \<longleftrightarrow> False"
| "PInf < PInf \<longleftrightarrow> False"
| "PInf < NInf \<longleftrightarrow> False"
| "NInf < Fin y \<longleftrightarrow> True"
| "NInf < PInf \<longleftrightarrow> True"
| "NInf < NInf \<longleftrightarrow> False"
| "NaN < y \<longleftrightarrow> False"
| "x < NaN \<longleftrightarrow> False"

instance ..

end

text \<open>The global predicates \<^verbatim>\<open>isNaN\<close> and \<^verbatim>\<open>isFinite\<close>.\<close>

fun isNaN :: "jsnum \<Rightarrow> bool" where
  "isNaN NaN = True"
| "isNaN x = False"

fun isFinite :: "jsnum \<Rightarrow> bool" where
  "isFinite (Fin x) = True"
| "isFinite x = False"

text \<open>The functions of \<^verbatim>\<open>Math\<close> that the engine calls.\<close>

fun Math_sqrt :: "jsnum \<Rightarrow> jsnum" where
  "Math_sqrt (Fin x) = (if x < 0 then NaN else Fin (sqrt x))"
| "Math_sqrt PInf = PInf"
| "Math_sqrt NInf = NaN"
| "Math_sqrt NaN = NaN"

fun Math_cbrt :: "jsnum \<Rightarrow> jsnum" where
  "Math_cbrt (Fin x) = Fin (root 3 x)"
| "Math_cbrt PInf = PInf"
| "Math_cbrt NInf = NInf"
| "Math_cbrt NaN = NaN"

fun Math_acos :: "jsnum \<Rightarrow> jsnum" where
  "Math_acos (Fin x) = (if x < - 1 \<or> 1 < x then NaN else Fin (arccos x))"
| "Math_acos x = NaN"

fun Math_cos :: "jsnum \<Rightarrow> jsnum" where
  "Math_cos (Fin x) = Fin (cos x)"
| "Math_cos x = NaN"

text \<open>
  \<^verbatim>\<open>Math.pow\<close>, case by case as the language defines exponentiation: an
  exponent \<open>NaN\<close> first, then an exponent zero, then the special bases, then the
  infinite exponents; a negative base has a power only for an integer exponent.
\<close>

definition odd_integer :: "real \<Rightarrow> bool" where
  "odd_integer y \<longleftrightarrow> y = of_int \<lfloor>y\<rfloor> \<and> odd \<lfloor>y\<rfloor>"

fun Math_pow :: "jsnum \<Rightarrow> jsnum \<Rightarrow> jsnum" where
  "Math_pow x NaN = NaN"
| "Math_pow x (Fin y) =
     (if y = 0 then Fin 1
      else case x of
        NaN \<Rightarrow> NaN
      | PInf \<Rightarrow> (if 0 < y then PInf else Fin 0)
      | NInf \<Rightarrow> (if 0 < y then (if odd_integer y then NInf else PInf) else Fin 0)
      | Fin b \<Rightarrow>
          (if b = 0 then (if 0 < y then Fin 0 else PInf)
           else if 0 < b then Fin (b powr y)
           else if y = of_int \<lfloor>y\<rfloor> then Fin (b powi \<lfloor>y\<rfloor>)
           else NaN))"
| "Math_pow x PInf =
     (case x of
        NaN \<Rightarrow> NaN
      | PInf \<Rightarrow> PInf
      | NInf \<Rightarrow> PInf
      | Fin b \<Rightarrow> (if 1 < \<bar>b\<bar> then PInf else if \<bar>b\<bar> = 1 then NaN else Fin 0))"
| "Math_pow x NInf =
     (case x of
        NaN \<Rightarrow> NaN
      | PInf \<Rightarrow> Fin 0
      | NInf \<Rightarrow> Fin 0
      | Fin b \<Rightarrow> (if 1 < \<bar>b\<bar> then Fin 0 else if \<bar>b\<bar> = 1 then NaN else PInf))"


text \<open>
  A function that ends without a \<^verbatim>\<open>return\<close> value gives \<^verbatim>\<open>undefined\<close>, modelled
  by \<open>None\<close>; used in arithmetic, \<^verbatim>\<open>undefined\<close> is \<open>NaN\<close>.
\<close>

fun ToNumber :: "jsnum option \<Rightarrow> jsnum" where
  "ToNumber None = NaN"
| "ToNumber (Some x) = x"

section \<open>The root finder\<close>

text \<open>
  Every \<^verbatim>\<open>throw new Error(...)\<close> of the source is a constructor: the divergence
  message and the message of the exhausted budget (which quotes the budget) of
  \<^verbatim>\<open>solve\<close>, the message of the range check on the optimum in
  \<^verbatim>\<open>calculationTask\<close>, and the message of \<^verbatim>\<open>stripping\<close> that LO must exceed SO.
\<close>

datatype error = Diverged | NotConverged nat | OutOfRange | ModelInconsistency

text \<open>
  The \<^verbatim>\<open>for\<close> loop of \<^verbatim>\<open>solve\<close>, by recursion on the iterations that remain. The
  state of the loop is \<open>x0\<close>, \<open>f0\<close>, \<open>x1\<close>, \<open>f1\<close>; \<open>m\<close> is the budget the
  final message quotes. The objective functions of this program are pure and throw nothing.
\<close>

fun solve_loop ::
  "(jsnum \<Rightarrow> jsnum) \<Rightarrow> jsnum \<Rightarrow> nat \<Rightarrow> nat \<Rightarrow> jsnum \<Rightarrow> jsnum \<Rightarrow> jsnum \<Rightarrow> jsnum \<Rightarrow> error + jsnum"
where
  "solve_loop objectiveFunc tolerance m 0 x0 f0 x1 f1 = Inl (NotConverged m)"
| "solve_loop objectiveFunc tolerance m (Suc n) x0 f0 x1 f1 =
     (if \<bar>f1\<bar> < tolerance then Inr x1
      else let x2 = x1 - f1 * (x1 - x0) / (f1 - f0) in
        if isNaN x2 \<or> \<not> isFinite x2 \<or> x2 \<le> Fin 0 then Inl Diverged
        else solve_loop objectiveFunc tolerance m n x1 f1 x2 (objectiveFunc x2))"

definition solve :: "(jsnum \<Rightarrow> jsnum) \<Rightarrow> jsnum \<Rightarrow> jsnum \<Rightarrow> nat \<Rightarrow> error + jsnum" where
  "solve objectiveFunc initialGuess tolerance maxIterations =
     (let x0 = initialGuess - Fin 0.1;
          x1 = initialGuess + Fin 0.1;
          x0 = (if x0 \<le> Fin 0 then Fin 0.1 else x0);
          f0 = objectiveFunc x0;
          f1 = objectiveFunc x1
      in solve_loop objectiveFunc tolerance maxIterations maxIterations x0 f0 x1 f1)"

text \<open>
  The secant method as the specification words it (the definitions named \<open>spec_\<close>),
  to compare \<^const>\<open>solve\<close> with: the
  two seeds, the update \<open>x2 = x1 - f1*(x1-x0)/(f1-f0)\<close>, and the sequence of pairs
  \<open>(x0, x1)\<close> that the shift produces. A candidate is invalid when it is \<open>NaN\<close>, not
  finite, or not positive. The tolerance is met at step \<open>k\<close> when \<open>|f1| < tolerance\<close>
  holds for the \<open>x1\<close> of the \<open>k\<close>-th pair; the iteration reaches step \<open>k\<close> when at
  no earlier step the tolerance was met or the candidate was invalid.
\<close>

definition spec_seed0 :: "jsnum \<Rightarrow> jsnum" where
  "spec_seed0 initial_guess =
     (if initial_guess - Fin 0.1 \<le> Fin 0 then Fin 0.1 else initial_guess - Fin 0.1)"

definition spec_seed1 :: "jsnum \<Rightarrow> jsnum" where
  "spec_seed1 initial_guess = initial_guess + Fin 0.1"

definition spec_secant_update :: "(jsnum \<Rightarrow> jsnum) \<Rightarrow> jsnum \<Rightarrow> jsnum \<Rightarrow> jsnum" where
  "spec_secant_update objective x0 x1 =
     x1 - objective x1 * (x1 - x0) / (objective x1 - objective x0)"

definition spec_shift :: "(jsnum \<Rightarrow> jsnum) \<Rightarrow> jsnum \<times> jsnum \<Rightarrow> jsnum \<times> jsnum" where
  "spec_shift objective = (\<lambda>(x0, x1). (x1, spec_secant_update objective x0 x1))"

definition spec_secant_pair :: "(jsnum \<Rightarrow> jsnum) \<Rightarrow> jsnum \<Rightarrow> nat \<Rightarrow> jsnum \<times> jsnum" where
  "spec_secant_pair objective initial_guess k =
     (spec_shift objective ^^ k) (spec_seed0 initial_guess, spec_seed1 initial_guess)"

definition spec_invalid_candidate :: "jsnum \<Rightarrow> bool" where
  "spec_invalid_candidate x2 \<longleftrightarrow> isNaN x2 \<or> \<not> isFinite x2 \<or> x2 \<le> Fin 0"

definition spec_met :: "(jsnum \<Rightarrow> jsnum) \<Rightarrow> jsnum \<Rightarrow> jsnum \<Rightarrow> nat \<Rightarrow> bool" where
  "spec_met objective initial_guess tolerance k \<longleftrightarrow>
     \<bar>objective (snd (spec_secant_pair objective initial_guess k))\<bar> < tolerance"

definition spec_reaches :: "(jsnum \<Rightarrow> jsnum) \<Rightarrow> jsnum \<Rightarrow> jsnum \<Rightarrow> nat \<Rightarrow> bool" where
  "spec_reaches objective initial_guess tolerance k \<longleftrightarrow>
     (\<forall>j<k. \<not> spec_met objective initial_guess tolerance j
        \<and> \<not> spec_invalid_candidate (snd (spec_secant_pair objective initial_guess (Suc j))))"

text \<open>
  The same two notions from an arbitrary pair of points, as the induction over the loop
  needs them: the tolerance is met at the pair reached after \<open>k\<close> shifts, and the loop
  gets through \<open>k\<close> iterations.
\<close>

definition conv_at :: "(jsnum \<Rightarrow> jsnum) \<Rightarrow> jsnum \<Rightarrow> jsnum \<Rightarrow> jsnum \<Rightarrow> nat \<Rightarrow> bool" where
  "conv_at f tol x0 x1 k \<longleftrightarrow> \<bar>f (snd ((spec_shift f ^^ k) (x0, x1)))\<bar> < tol"

definition ok_to :: "(jsnum \<Rightarrow> jsnum) \<Rightarrow> jsnum \<Rightarrow> jsnum \<Rightarrow> jsnum \<Rightarrow> nat \<Rightarrow> bool" where
  "ok_to f tol x0 x1 k \<longleftrightarrow>
     (\<forall>j<k. \<not> conv_at f tol x0 x1 j
        \<and> \<not> spec_invalid_candidate (snd ((spec_shift f ^^ Suc j) (x0, x1))))"

section \<open>The cubic solver\<close>

definition solveCubic :: "jsnum \<Rightarrow> jsnum \<Rightarrow> jsnum \<Rightarrow> jsnum \<Rightarrow> jsnum option" where
  "solveCubic a b c d =
     (if \<bar>a\<bar> < Fin (1 / 10 ^ 9) then None
      else
        let p = c / a - (b * b) / (Fin 3 * a * a);
            q = (Fin 2 * b * b * b) / (Fin 27 * a * a * a) - (b * c) / (Fin 3 * a * a) + d / a;
            term1 = q / Fin 2;
            term2 = (q * q) / Fin 4 + (p * p * p) / Fin 27
        in
          if Fin 0 \<le> term2 then
            (let sqrt_term2 = Math_sqrt term2;
                 u = Math_cbrt ((- term1) + sqrt_term2);
                 v = Math_cbrt ((- term1) - sqrt_term2)
             in Some (u + v - b / (Fin 3 * a)))
          else
            (let r = Math_sqrt ((- (p * p * p)) / Fin 27);
                 phi = Math_acos ((- q) / (Fin 2 * r));
                 root1 = Fin 2 * Math_cbrt r * Math_cos (phi / Fin 3) - b / (Fin 3 * a)
             in Some root1))"

section \<open>The process inputs and the isotherm model\<close>

record inputs =
  plsFlow :: jsnum
  plsCu :: jsnum
  plsAcid :: jsnum
  percentageML :: jsnum
  o_a_ex :: jsnum
  effE1 :: jsnum
  effE2 :: jsnum
  spCu :: jsnum
  spAcid :: jsnum
  adCu :: jsnum
  effS1 :: jsnum
  effS2 :: jsnum

text \<open>The inputs the page starts with (the initial state of \<^verbatim>\<open>App\<close>).\<close>

definition initial_inputs :: inputs where
  "initial_inputs =
     \<lparr> plsFlow = Fin 400, plsCu = Fin 7, plsAcid = Fin 1.96, percentageML = Fin 80,
       o_a_ex = Fin 1.25, effE1 = Fin 95, effE2 = Fin 95, spCu = Fin 35, spAcid = Fin 190,
       adCu = Fin 50, effS1 = Fin 98, effS2 = Fin 98 \<rparr>"

text \<open>The degenerate scenario of the specification: the same inputs with feed copper \<open>0\<close>.\<close>

definition zero_feed_inputs :: inputs where
  "zero_feed_inputs = initial_inputs\<lparr>plsCu := Fin 0\<rparr>"

record constants_ex =
  a_ex :: jsnum
  b_ex :: jsnum
  c_ex :: jsnum
  d_ex :: jsnum
  e_ex :: jsnum
  f_ex :: jsnum

record constants_st =
  a_st :: jsnum
  b_st :: jsnum
  c_st :: jsnum
  d_st :: jsnum
  e_st :: jsnum
  f_st :: jsnum

text \<open>The object \<^verbatim>\<open>constants\<close> of the extraction circuit.\<close>

definition extraction_constants :: "inputs \<Rightarrow> jsnum \<Rightarrow> constants_ex" where
  "extraction_constants i V_percent =
     \<lparr> a_ex = plsAcid i + Fin 1.54 * plsCu i,
       b_ex = Fin (- 1.54),
       c_ex = Fin 3.303 * V_percent,
       d_ex = Fin (- 3.0842),
       e_ex = Fin (- 25.698) * Math_pow V_percent (Fin (- 1.704)),
       f_ex = Fin 10.663 * Math_pow V_percent (Fin (- 0.608)) \<rparr>"

definition getCu_or_from_Cu_aq :: "constants_ex \<Rightarrow> jsnum \<Rightarrow> jsnum option" where
  "getCu_or_from_Cu_aq constants Cu_aq =
     (if Cu_aq \<le> Fin 0 then Some (Fin 0)
      else
        let g_ex = Math_pow (a_ex constants + b_ex constants * Cu_aq) (Fin 2) / Cu_aq;
            alpha_ex =
              (Fin 2 * c_ex constants * d_ex constants * e_ex constants
                 + Math_pow (d_ex constants) (Fin 2) * f_ex constants)
              / (Math_pow (d_ex constants) (Fin 2) * e_ex constants);
            lambda_ex =
              (Fin 2 * c_ex constants * d_ex constants * f_ex constants
                 + Math_pow (c_ex constants) (Fin 2) * e_ex constants - g_ex)
              / (Math_pow (d_ex constants) (Fin 2) * e_ex constants);
            epsilon_ex =
              (f_ex constants * Math_pow (c_ex constants) (Fin 2))
              / (Math_pow (d_ex constants) (Fin 2) * e_ex constants);
            Y = solveCubic (Fin 1) alpha_ex lambda_ex epsilon_ex
        in Y)"

text \<open>\<^verbatim>\<open>getCu_aq_from_Cu_or\<close> returns \<^verbatim>\<open>null\<close>, here \<open>None\<close>, for a negative discriminant.\<close>

definition getCu_aq_from_Cu_or :: "constants_ex \<Rightarrow> jsnum \<Rightarrow> jsnum option" where
  "getCu_aq_from_Cu_or constants Cu_or =
     (if Cu_or \<le> Fin 0 then Some (Fin 0)
      else
        let h_ex = ((e_ex constants * Cu_or + f_ex constants)
                      * Math_pow (c_ex constants + d_ex constants * Cu_or) (Fin 2)) / Cu_or;
            a = Math_pow (b_ex constants) (Fin 2);
            b = Fin 2 * a_ex constants * b_ex constants - h_ex;
            c = Math_pow (a_ex constants) (Fin 2);
            discriminant = b * b - Fin 4 * a * c
        in
          if discriminant < Fin 0 then None
          else Some ((h_ex - Fin 2 * a_ex constants * b_ex constants - Math_sqrt discriminant)
                       / (Fin 2 * a)))"

text \<open>The object \<^verbatim>\<open>constants\<close> of the stripping circuit and its isotherm.\<close>

definition stripping_constants :: "inputs \<Rightarrow> jsnum \<Rightarrow> constants_st" where
  "stripping_constants i V_percent =
     \<lparr> a_st = spAcid i + Fin 1.54 * spCu i,
       b_st = Fin (- 1.54),
       c_st = Fin 3.303 * V_percent,
       d_st = Fin (- 3.0842),
       e_st = (Fin 0.00511 * V_percent) - Fin 0.194,
       f_st = Fin 12.81 * Math_pow V_percent (Fin (- 0.901)) \<rparr>"

definition getCu_or_from_Cu_aq_stripping :: "constants_st \<Rightarrow> jsnum \<Rightarrow> jsnum option" where
  "getCu_or_from_Cu_aq_stripping constants Cu_aq =
     (if Cu_aq \<le> Fin 0 then Some (Fin 0)
      else
        let g_st = Math_pow (a_st constants + b_st constants * Cu_aq) (Fin 2) / Cu_aq;
            alpha_st =
              (Fin 2 * c_st constants * d_st constants * e_st constants
                 + Math_pow (d_st constants) (Fin 2) * f_st constants)
              / (Math_pow (d_st constants) (Fin 2) * e_st constants);
            lambda_st =
              (Fin 2 * c_st constants * d_st constants * f_st constants
                 + Math_pow (c_st constants) (Fin 2) * e_st constants - g_st)
              / (Math_pow (d_st constants) (Fin 2) * e_st constants);
            epsilon_st =
              (f_st constants * Math_pow (c_st constants) (Fin 2))
              / (Math_pow (d_st constants) (Fin 2) * e_st constants);
            Y = solveCubic (Fin 1) alpha_st lambda_st epsilon_st
        in Y)"

section \<open>The circuit simulators\<close>

text \<open>
  The results keep the scalar outputs of each circuit. The chart samples
  (\<^verbatim>\<open>mccabeThiele\<close>) and the stage points (\<^verbatim>\<open>details\<close>, apart from the derived ratio
  \<^verbatim>\<open>o_a_st\<close>) are data computed by the same functions after the outputs; no statement
  among them throws, and they are left out.
\<close>

record extraction_result =
  ml :: "jsnum option"
  lo :: jsnum
  ex_so :: jsnum
  raff :: jsnum
  ex_recovery :: jsnum
  raffAcid :: jsnum

record stripping_result =
  st_so :: jsnum
  st_recovery :: jsnum
  netCu :: jsnum
  o_a_st :: jsnum

definition stage1_solver_func ::
  "inputs \<Rightarrow> constants_ex \<Rightarrow> jsnum \<Rightarrow> jsnum \<Rightarrow> jsnum \<Rightarrow> jsnum" where
  "stage1_solver_func i constants Y_out_E1 X_in_E1 X_out_guess =
     (let Y_eq = ToNumber (getCu_or_from_Cu_aq constants X_out_guess);
          Y_in = Y_out_E1 - (X_in_E1 - X_out_guess) / o_a_ex i
      in (Y_out_E1 - Y_in) - (effE1 i / Fin 100) * (Y_eq - Y_in))"

definition stage2_solver_func ::
  "inputs \<Rightarrow> constants_ex \<Rightarrow> jsnum \<Rightarrow> jsnum \<Rightarrow> jsnum \<Rightarrow> jsnum" where
  "stage2_solver_func i constants Y_out_E2 X_in_E2 X_out_guess =
     (let Y_eq = ToNumber (getCu_or_from_Cu_aq constants X_out_guess);
          Y_in = Y_out_E2 - (X_in_E2 - X_out_guess) / o_a_ex i
      in (Y_out_E2 - Y_in) - (effE2 i / Fin 100) * (Y_eq - Y_in))"

text \<open>
  The extraction block of \<^verbatim>\<open>calculateAll\<close>. An error thrown by one of the two calls of
  \<^verbatim>\<open>solve\<close> leaves the block at once. \<^verbatim>\<open>calculateAll\<close> takes the root finder as
  its third argument; its only two callers pass the \<^verbatim>\<open>solve\<close> above, which the model
  calls directly.
\<close>

definition extraction :: "inputs \<Rightarrow> jsnum \<Rightarrow> error + extraction_result" where
  "extraction i V_percent =
     (let constants = extraction_constants i V_percent;
          ml = getCu_or_from_Cu_aq constants (plsCu i);
          lo = ToNumber ml * (percentageML i / Fin 100);
          Y_out_E1 = lo;
          X_in_E1 = plsCu i
      in
        case solve (stage1_solver_func i constants Y_out_E1 X_in_E1)
               (X_in_E1 * Fin 0.3) (Fin (1 / 10 ^ 7)) 100 of
          Inl e \<Rightarrow> Inl e
        | Inr X_out_E1 \<Rightarrow>
            let Y_in_E1 = Y_out_E1 - (X_in_E1 - X_out_E1) / o_a_ex i;
                Y_out_E2 = Y_in_E1;
                X_in_E2 = X_out_E1
            in
              case solve (stage2_solver_func i constants Y_out_E2 X_in_E2)
                     (X_in_E2 * Fin 0.15) (Fin (1 / 10 ^ 7)) 100 of
                Inl e \<Rightarrow> Inl e
              | Inr X_out_E2 \<Rightarrow>
                  let Y_in_E2 = Y_out_E2 - (X_in_E2 - X_out_E2) / o_a_ex i;
                      so = Y_in_E2;
                      raff = X_out_E2;
                      recovery = (plsCu i - raff) / plsCu i * Fin 100;
                      raffAcid = plsAcid i + (plsCu i - raff) * Fin 1.54
                  in Inr \<lparr> ml = ml, lo = lo, ex_so = so, raff = raff,
                           ex_recovery = recovery, raffAcid = raffAcid \<rparr>)"

text \<open>The stripping block; \<open>ex\<close> is the result of the extraction block, of which it reads
  \<^verbatim>\<open>extraction.lo\<close> and \<^verbatim>\<open>extraction.so\<close>.\<close>

definition stripping :: "inputs \<Rightarrow> jsnum \<Rightarrow> extraction_result \<Rightarrow> error + stripping_result" where
  "stripping i V_percent ex =
     (let lo = lo ex;
          so_ex = ex_so ex
      in
        if lo \<le> so_ex then Inl ModelInconsistency
        else
          let o_a_st = (adCu i - spCu i) / (lo - so_ex);
              constants = stripping_constants i V_percent;
              Y_in_S1 = lo;
              X_out_S1 = adCu i;
              Y_eq_S1 = ToNumber (getCu_or_from_Cu_aq_stripping constants X_out_S1);
              Y_out_S1 = Y_in_S1 - (effS1 i / Fin 100) * (Y_in_S1 - Y_eq_S1);
              X_in_S1 = X_out_S1 - o_a_st * (Y_in_S1 - Y_out_S1);
              Y_in_S2 = Y_out_S1;
              X_out_S2 = X_in_S1;
              Y_eq_S2 = ToNumber (getCu_or_from_Cu_aq_stripping constants X_out_S2);
              so = Y_in_S2 - (effS2 i / Fin 100) * (Y_in_S2 - Y_eq_S2);
              recovery = (lo - so) / lo * Fin 100;
              netCu = (lo - so) / V_percent
          in Inr \<lparr> st_so = so, st_recovery = recovery, netCu = netCu, o_a_st = o_a_st \<rparr>)"

section \<open>The consistency orchestrator\<close>

record result =
  v_percent :: jsnum
  res_extraction :: extraction_result
  res_stripping :: stripping_result
  so_consistency :: jsnum

text \<open>
  The \<^verbatim>\<open>try\<close> block of \<^verbatim>\<open>calculateAll\<close>, and \<^verbatim>\<open>calculateAll\<close> itself, whose
  \<^verbatim>\<open>catch\<close> logs whatever was thrown and returns \<^verbatim>\<open>null\<close>, here \<open>None\<close>.
\<close>

definition calculateAll_try :: "inputs \<Rightarrow> jsnum \<Rightarrow> error + result" where
  "calculateAll_try i V_percent =
     (case extraction i V_percent of
        Inl e \<Rightarrow> Inl e
      | Inr ex \<Rightarrow>
          (case stripping i V_percent ex of
             Inl e \<Rightarrow> Inl e
           | Inr st \<Rightarrow>
               Inr \<lparr> v_percent = V_percent, res_extraction = ex, res_stripping = st,
                      so_consistency = ex_so ex - st_so st \<rparr>))"

definition calculateAll :: "inputs \<Rightarrow> jsnum \<Rightarrow> result option" where
  "calculateAll i V_percent =
     (case calculateAll_try i V_percent of Inl e \<Rightarrow> None | Inr res \<Rightarrow> Some res)"





section \<open>Facts about the numbers\<close>


lemma minus_Fin [simp]: "Fin x - Fin y = Fin (x - y)"
  by (simp add: minus_jsnum_def)

lemma NaN_right [simp]:
  "x + NaN = NaN" "x * NaN = NaN" "x / NaN = NaN" "\<not> x \<le> NaN" "\<not> x < NaN"
  by (cases x; simp)+

lemma minus_NaN [simp]: "x - NaN = NaN" "NaN - x = NaN"
  by (simp_all add: minus_jsnum_def)

lemma NaN_left [simp]: "\<not> NaN \<le> x" "\<not> NaN < x"
  by simp_all

lemma Math_pow_2 [simp]: "Math_pow (Fin x) (Fin 2) = Fin (x\<^sup>2)"
proof -
  have "\<lfloor>2::real\<rfloor> = 2" by simp
  then show ?thesis by (auto simp: powr_numeral)
qed

lemma not_le_diff:
  "\<not> a \<le> b \<Longrightarrow> \<not> (a - b \<le> Fin 0) \<and> (isNaN a \<or> isNaN b \<or> Fin 0 < a - b)"
  for a b :: jsnum
  by (cases a; cases b) (simp_all add: minus_jsnum_def)


lemma coincident_seeds_NaN: "v * Fin 0 / (v - v) = NaN"
  by (cases v) (simp_all add: minus_jsnum_def)

lemma solve_guess_zero:
  "solve f (Fin 0) tol (Suc n) = (if \<bar>f (Fin 0.1)\<bar> < tol then Inr (Fin 0.1) else Inl Diverged)"
  by (simp add: solve_def coincident_seeds_NaN)

lemma solve_guess_zero_100:
  "solve f (Fin 0) tol 100 = (if \<bar>f (Fin 0.1)\<bar> < tol then Inr (Fin 0.1) else Inl Diverged)"
  using solve_guess_zero [of f tol 99] by simp

section \<open>Verification of the root finder\<close>

subsection \<open>The loop and the secant sequence\<close>

lemma shift_pair: "spec_shift f (x0, x1) = (x1, spec_secant_update f x0 x1)"
  by (simp add: spec_shift_def)

lemma funpow_shift_Suc:
  "(spec_shift f ^^ Suc j) (x0, x1) = (spec_shift f ^^ j) (x1, spec_secant_update f x0 x1)"
  by (simp add: funpow_swap1 shift_pair)

lemma conv_at_0: "conv_at f tol x0 x1 0 \<longleftrightarrow> \<bar>f x1\<bar> < tol"
  by (simp add: conv_at_def)

lemma conv_at_Suc: "conv_at f tol x0 x1 (Suc k) \<longleftrightarrow> conv_at f tol x1 (spec_secant_update f x0 x1) k"
  unfolding conv_at_def funpow_shift_Suc ..

lemma ok_to_0: "ok_to f tol x0 x1 0"
  by (simp add: ok_to_def)

lemma ok_to_Suc: "ok_to f tol x0 x1 (Suc k) \<longleftrightarrow>
   \<not> \<bar>f x1\<bar> < tol \<and> \<not> spec_invalid_candidate (spec_secant_update f x0 x1) \<and> ok_to f tol x1 (spec_secant_update f x0 x1) k"
proof -
  have "ok_to f tol x0 x1 (Suc k) \<longleftrightarrow>
      (\<not> conv_at f tol x0 x1 0 \<and> \<not> spec_invalid_candidate (snd ((spec_shift f ^^ Suc 0) (x0, x1)))) \<and>
      (\<forall>j<k. \<not> conv_at f tol x0 x1 (Suc j) \<and> \<not> spec_invalid_candidate (snd ((spec_shift f ^^ Suc (Suc j)) (x0, x1))))"
    unfolding ok_to_def by (metis less_Suc_eq_0_disj)
  also have "\<dots> \<longleftrightarrow> \<not> \<bar>f x1\<bar> < tol \<and> \<not> spec_invalid_candidate (spec_secant_update f x0 x1) \<and> ok_to f tol x1 (spec_secant_update f x0 x1) k"
    by (simp add: ok_to_def conv_at_Suc conv_at_0 funpow_shift_Suc del: funpow.simps)
  finally show ?thesis .
qed

lemma ok_to_less: "ok_to f tol x0 x1 k \<Longrightarrow> j < k \<Longrightarrow>
    \<not> conv_at f tol x0 x1 j \<and> \<not> spec_invalid_candidate (snd ((spec_shift f ^^ Suc j) (x0, x1)))"
  unfolding ok_to_def by blast

lemma loop_classify:
  "(\<exists>k<n. ok_to f tol x0 x1 k \<and> conv_at f tol x0 x1 k
        \<and> solve_loop f tol m n x0 (f x0) x1 (f x1) = Inr (snd ((spec_shift f ^^ k) (x0, x1))))
   \<or> (\<exists>k<n. ok_to f tol x0 x1 k \<and> \<not> conv_at f tol x0 x1 k
        \<and> spec_invalid_candidate (snd ((spec_shift f ^^ Suc k) (x0, x1)))
        \<and> solve_loop f tol m n x0 (f x0) x1 (f x1) = Inl Diverged)
   \<or> (ok_to f tol x0 x1 n \<and> solve_loop f tol m n x0 (f x0) x1 (f x1) = Inl (NotConverged m))"
proof (induction n arbitrary: x0 x1)
  case 0
  show ?case by (simp add: ok_to_0)
next
  case (Suc n)
  let ?x2 = "spec_secant_update f x0 x1"
  consider (conv) "\<bar>f x1\<bar> < tol"
    | (div) "\<not> \<bar>f x1\<bar> < tol" "spec_invalid_candidate ?x2"
    | (step) "\<not> \<bar>f x1\<bar> < tol" "\<not> spec_invalid_candidate ?x2"
    by blast
  then show ?case
  proof cases
    case conv
    then have "ok_to f tol x0 x1 0 \<and> conv_at f tol x0 x1 0
        \<and> solve_loop f tol m (Suc n) x0 (f x0) x1 (f x1) = Inr (snd ((spec_shift f ^^ 0) (x0, x1)))"
      by (simp add: ok_to_0 conv_at_0)
    then show ?thesis by blast
  next
    case div
    then have "ok_to f tol x0 x1 0 \<and> \<not> conv_at f tol x0 x1 0
        \<and> spec_invalid_candidate (snd ((spec_shift f ^^ Suc 0) (x0, x1)))
        \<and> solve_loop f tol m (Suc n) x0 (f x0) x1 (f x1) = Inl Diverged"
      by (simp add: ok_to_0 conv_at_0 shift_pair) (simp add: spec_invalid_candidate_def spec_secant_update_def)
    then show ?thesis by blast
  next
    case step
    then have eq: "solve_loop f tol m (Suc n) x0 (f x0) x1 (f x1)
        = solve_loop f tol m n x1 (f x1) ?x2 (f ?x2)"
      by (simp add: spec_invalid_candidate_def spec_secant_update_def Let_def)
    from Suc.IH [of x1 ?x2] show ?thesis
    proof (elim disjE exE conjE)
      fix k assume "k < n" "ok_to f tol x1 ?x2 k" "conv_at f tol x1 ?x2 k"
        "solve_loop f tol m n x1 (f x1) ?x2 (f ?x2) = Inr (snd ((spec_shift f ^^ k) (x1, ?x2)))"
      with step eq have "Suc k < Suc n \<and> ok_to f tol x0 x1 (Suc k) \<and> conv_at f tol x0 x1 (Suc k)
        \<and> solve_loop f tol m (Suc n) x0 (f x0) x1 (f x1) = Inr (snd ((spec_shift f ^^ Suc k) (x0, x1)))"
        by (simp add: ok_to_Suc conv_at_Suc funpow_shift_Suc del: funpow.simps)
      then show ?thesis by blast
    next
      fix k assume "k < n" "ok_to f tol x1 ?x2 k" "\<not> conv_at f tol x1 ?x2 k"
        "spec_invalid_candidate (snd ((spec_shift f ^^ Suc k) (x1, ?x2)))"
        "solve_loop f tol m n x1 (f x1) ?x2 (f ?x2) = Inl Diverged"
      with step eq have "Suc k < Suc n \<and> ok_to f tol x0 x1 (Suc k) \<and> \<not> conv_at f tol x0 x1 (Suc k)
        \<and> spec_invalid_candidate (snd ((spec_shift f ^^ Suc (Suc k)) (x0, x1)))
        \<and> solve_loop f tol m (Suc n) x0 (f x0) x1 (f x1) = Inl Diverged"
        by (simp add: ok_to_Suc conv_at_Suc funpow_shift_Suc del: funpow.simps)
      then show ?thesis by blast
    next
      assume "ok_to f tol x1 ?x2 n" "solve_loop f tol m n x1 (f x1) ?x2 (f ?x2) = Inl (NotConverged m)"
      with step eq show ?thesis by (simp add: ok_to_Suc)
    qed
  qed
qed

lemma solve_unfold:
  "solve f g tol n = solve_loop f tol n n (spec_seed0 g) (f (spec_seed0 g)) (spec_seed1 g) (f (spec_seed1 g))"
  by (simp add: solve_def spec_seed0_def spec_seed1_def Let_def)

lemma reaches_ok_to: "spec_reaches f g tol k \<longleftrightarrow> ok_to f tol (spec_seed0 g) (spec_seed1 g) k"
  by (simp add: spec_reaches_def ok_to_def conv_at_def spec_met_def spec_secant_pair_def)

lemma met_conv_at: "spec_met f g tol k \<longleftrightarrow> conv_at f tol (spec_seed0 g) (spec_seed1 g) k"
  by (simp add: conv_at_def spec_met_def spec_secant_pair_def)

lemma solve_classify:
  "(\<exists>k<n. spec_reaches f g tol k \<and> spec_met f g tol k \<and> solve f g tol n = Inr (snd (spec_secant_pair f g k)))
   \<or> (\<exists>k<n. spec_reaches f g tol k \<and> \<not> spec_met f g tol k
        \<and> spec_invalid_candidate (snd (spec_secant_pair f g (Suc k))) \<and> solve f g tol n = Inl Diverged)
   \<or> (spec_reaches f g tol n \<and> solve f g tol n = Inl (NotConverged n))"
  using loop_classify [of n f tol "spec_seed0 g" "spec_seed1 g" n]
  unfolding solve_unfold reaches_ok_to met_conv_at spec_secant_pair_def .

lemma reaches_less: "spec_reaches f g tol k \<Longrightarrow> j < k \<Longrightarrow>
    \<not> spec_met f g tol j \<and> \<not> spec_invalid_candidate (snd (spec_secant_pair f g (Suc j)))"
  unfolding spec_reaches_def by blast

lemma stop_unique:
  assumes "spec_reaches f g tol k" "spec_met f g tol k \<or> spec_invalid_candidate (snd (spec_secant_pair f g (Suc k)))"
    and "spec_reaches f g tol k'" "spec_met f g tol k' \<or> spec_invalid_candidate (snd (spec_secant_pair f g (Suc k')))"
  shows "k = k'"
proof (rule ccontr)
  assume "k \<noteq> k'"
  then consider "k < k'" | "k' < k" by linarith
  then show False
    using reaches_less [OF assms(3), of k] reaches_less [OF assms(1), of k'] assms(2,4) by cases auto
qed


subsection \<open>The claims about \<^verbatim>\<open>solve\<close>\<close>

text \<open>
  Claim C3. For every objective function, initial guess, tolerance and iteration budget,
  \<^const>\<open>solve\<close> returns a number \<open>r\<close> exactly when \<open>r\<close> is the \<open>x1\<close> of the first
  pair of the secant sequence at which \<open>|f1| < tolerance\<close>, this pair comes within the
  budget, and every candidate before it was valid. The sequence is the one of the
  specification: it starts at \<open>x0 = initial_guess - 0.1\<close> (replaced by \<open>0.1\<close> when that
  is \<open>\<le> 0\<close>) and \<open>x1 = initial_guess + 0.1\<close>, and each shift replaces \<open>(x0, x1)\<close> by
  \<open>(x1, x1 - f1*(x1-x0)/(f1-f0))\<close>.
\<close>

theorem solve_returns_iff:
  "solve f g tol n = Inr r \<longleftrightarrow>
     (\<exists>k<n. spec_reaches f g tol k \<and> spec_met f g tol k \<and> r = snd (spec_secant_pair f g k))"
proof
  assume L: "solve f g tol n = Inr r"
  from solve_classify [of n f g tol] show "\<exists>k<n. spec_reaches f g tol k \<and> spec_met f g tol k \<and> r = snd (spec_secant_pair f g k)"
    using L by auto
next
  assume "\<exists>k<n. spec_reaches f g tol k \<and> spec_met f g tol k \<and> r = snd (spec_secant_pair f g k)"
  then obtain k where k: "k < n" "spec_reaches f g tol k" "spec_met f g tol k" "r = snd (spec_secant_pair f g k)"
    by blast
  from solve_classify [of n f g tol] show "solve f g tol n = Inr r"
  proof (elim disjE exE conjE)
    fix k' assume "spec_reaches f g tol k'" "spec_met f g tol k'" "solve f g tol n = Inr (snd (spec_secant_pair f g k'))"
    moreover from this k have "k = k'" by (intro stop_unique [of f g tol k k']) auto
    ultimately show ?thesis using k by simp
  next
    fix k' assume "spec_reaches f g tol k'" "\<not> spec_met f g tol k'" "spec_invalid_candidate (snd (spec_secant_pair f g (Suc k')))"
    with k have "k = k'" by (intro stop_unique [of f g tol k k']) auto
    with k \<open>\<not> spec_met f g tol k'\<close> show ?thesis by simp
  next
    assume "spec_reaches f g tol n"
    from reaches_less [OF this k(1)] k(3) show ?thesis by simp
  qed
qed

theorem solve_returns_iff_witness:
  "solve (\<lambda>x. x - Fin 1) (Fin 1) (Fin (1 / 10 ^ 7)) 100 = Inr (Fin 1)
   \<and> (\<exists>k<100. spec_reaches (\<lambda>x. x - Fin 1) (Fin 1) (Fin (1 / 10 ^ 7)) k
         \<and> spec_met (\<lambda>x. x - Fin 1) (Fin 1) (Fin (1 / 10 ^ 7)) k
         \<and> Fin 1 = snd (spec_secant_pair (\<lambda>x. x - Fin 1) (Fin 1) k))"
proof -
  have e: "solve (\<lambda>x. x - Fin 1) (Fin 1) (Fin (1 / 10 ^ 7)) 100 = Inr (Fin 1)"
    by (simp add: solve_def eval_nat_numeral)
  from e solve_returns_iff [of "\<lambda>x. x - Fin 1" "Fin 1" "Fin (1 / 10 ^ 7)" 100 "Fin 1"]
  show ?thesis by simp
qed

text \<open>
  Claim C4. \<^const>\<open>solve\<close> fails with the divergence error exactly when, within the
  budget and before the tolerance is met, a secant candidate is \<open>NaN\<close>, not finite or
  \<open>\<le> 0\<close>: the first such candidate ends the call, whatever the objective would do
  afterwards. It fails with the non-convergence error (which quotes the budget) exactly
  when the budget is used up with the tolerance never met at the top of an iteration and
  every candidate valid. It has no other error, and a failure is not a number.
\<close>

theorem solve_fails_iff:
  "(solve f g tol n = Inl Diverged \<longleftrightarrow>
      (\<exists>k<n. spec_reaches f g tol k \<and> \<not> spec_met f g tol k
          \<and> spec_invalid_candidate (snd (spec_secant_pair f g (Suc k)))))
   \<and> (solve f g tol n = Inl (NotConverged m) \<longleftrightarrow> m = n \<and> spec_reaches f g tol n)
   \<and> solve f g tol n \<noteq> Inl OutOfRange \<and> solve f g tol n \<noteq> Inl ModelInconsistency"
proof -
  note cl = solve_classify [of n f g tol]
  have div: "solve f g tol n = Inl Diverged \<longleftrightarrow>
      (\<exists>k<n. spec_reaches f g tol k \<and> \<not> spec_met f g tol k
          \<and> spec_invalid_candidate (snd (spec_secant_pair f g (Suc k))))"
  proof
    assume "solve f g tol n = Inl Diverged"
    with cl
    show "\<exists>k<n. spec_reaches f g tol k \<and> \<not> spec_met f g tol k \<and> spec_invalid_candidate (snd (spec_secant_pair f g (Suc k)))"
      by auto
  next
    assume "\<exists>k<n. spec_reaches f g tol k \<and> \<not> spec_met f g tol k \<and> spec_invalid_candidate (snd (spec_secant_pair f g (Suc k)))"
    then obtain k where k: "k < n" "spec_reaches f g tol k" "\<not> spec_met f g tol k"
        "spec_invalid_candidate (snd (spec_secant_pair f g (Suc k)))" by blast
    from cl show "solve f g tol n = Inl Diverged"
    proof (elim disjE exE conjE)
      fix k' assume "spec_reaches f g tol k'" "spec_met f g tol k'"
      with k have "k = k'" by (intro stop_unique [of f g tol k k']) auto
      with k \<open>spec_met f g tol k'\<close> show ?thesis by simp
    next
      assume "spec_reaches f g tol n"
      from reaches_less [OF this k(1)] k(4) show ?thesis by simp
    qed
  qed
  have nc: "solve f g tol n = Inl (NotConverged m) \<longleftrightarrow> m = n \<and> spec_reaches f g tol n"
  proof
    assume "solve f g tol n = Inl (NotConverged m)"
    with cl show "m = n \<and> spec_reaches f g tol n" by auto
  next
    assume a: "m = n \<and> spec_reaches f g tol n"
    from cl show "solve f g tol n = Inl (NotConverged m)"
      using a reaches_less [of f g tol n] by auto
  qed
  from cl have "solve f g tol n \<noteq> Inl OutOfRange" "solve f g tol n \<noteq> Inl ModelInconsistency"
    by auto
  with div nc show ?thesis by blast
qed

theorem solve_fails_iff_witness:
  "solve (\<lambda>x. Fin 1) (Fin 1) (Fin (1 / 10 ^ 7)) 100 = Inl Diverged
   \<and> (\<exists>k<100. spec_reaches (\<lambda>x. Fin 1) (Fin 1) (Fin (1 / 10 ^ 7)) k
         \<and> \<not> spec_met (\<lambda>x. Fin 1) (Fin 1) (Fin (1 / 10 ^ 7)) k
         \<and> spec_invalid_candidate (snd (spec_secant_pair (\<lambda>x. Fin 1) (Fin 1) (Suc k))))
   \<and> solve (\<lambda>x. x - Fin 1) (Fin 1) (Fin (1 / 10 ^ 7)) 1 = Inl (NotConverged 1)
   \<and> spec_reaches (\<lambda>x. x - Fin 1) (Fin 1) (Fin (1 / 10 ^ 7)) 1"
proof -
  have d: "solve (\<lambda>x. Fin 1) (Fin 1) (Fin (1 / 10 ^ 7)) 100 = Inl Diverged"
    by (simp add: solve_def eval_nat_numeral minus_jsnum_def)
  have n: "solve (\<lambda>x. x - Fin 1) (Fin 1) (Fin (1 / 10 ^ 7)) 1 = Inl (NotConverged 1)"
    by (simp add: solve_def)
  from d solve_fails_iff [of "\<lambda>x. Fin 1" "Fin 1" "Fin (1 / 10 ^ 7)" 100 100]
    n solve_fails_iff [of "\<lambda>x. x - Fin 1" "Fin 1" "Fin (1 / 10 ^ 7)" 1 1]
  show ?thesis by simp
qed

text \<open>
  Claim C10. With the initial guess \<open>0\<close> (the seed \<open>0.3 * X_in\<close> or \<open>0.15 * X_in\<close> of a
  stage whose aqueous inlet is \<open>0\<close>) both seed points are \<open>0.1\<close>, the first secant
  candidate is \<open>NaN\<close> for every objective function, and with a budget of at least one
  iteration \<^const>\<open>solve\<close> returns \<open>0.1\<close> when \<open>|objective(0.1)| < tolerance\<close> and throws
  the divergence error otherwise: no secant step is ever taken.
\<close>

theorem solve_zero_guess:
  "0 < n \<Longrightarrow>
     Fin 0 * Fin 0.3 = Fin 0 \<and> Fin 0 * Fin 0.15 = Fin 0
     \<and> spec_seed0 (Fin 0) = Fin 0.1 \<and> spec_seed1 (Fin 0) = Fin 0.1
     \<and> spec_secant_update f (spec_seed0 (Fin 0)) (spec_seed1 (Fin 0)) = NaN
     \<and> solve f (Fin 0) tol n = (if \<bar>f (Fin 0.1)\<bar> < tol then Inr (Fin 0.1) else Inl Diverged)"
proof -
  assume "0 < n"
  then obtain n' where n: "n = Suc n'" by (cases n) simp_all
  have s: "spec_seed0 (Fin 0) = Fin 0.1" "spec_seed1 (Fin 0) = Fin 0.1"
    by (simp_all add: spec_seed0_def spec_seed1_def)
  have u: "spec_secant_update f (Fin 0.1) (Fin 0.1) = NaN"
    by (simp add: spec_secant_update_def coincident_seeds_NaN)
  have "solve f (Fin 0) tol (Suc n') = (if \<bar>f (Fin 0.1)\<bar> < tol then Inr (Fin 0.1) else Inl Diverged)"
    by (simp add: solve_def coincident_seeds_NaN)
  with s u n show ?thesis by simp
qed

theorem solve_zero_guess_witness:
  "(0::nat) < 100 \<and> solve (\<lambda>x. x - Fin 1) (Fin 0) (Fin (1 / 10 ^ 7)) 100 = Inl Diverged
   \<and> solve (\<lambda>x. x - Fin 0.1) (Fin 0) (Fin (1 / 10 ^ 7)) 100 = Inr (Fin 0.1)"
  using solve_zero_guess [of 100 "\<lambda>x. x - Fin 1" "Fin (1 / 10 ^ 7)"]
    solve_zero_guess [of 100 "\<lambda>x. x - Fin 0.1" "Fin (1 / 10 ^ 7)"]
  by simp

text \<open>What a call of \<^const>\<open>solve\<close> that returns, or fails, tells its caller.\<close>

lemma solve_result:
  assumes "solve f g tol n = Inr r"
  shows "\<bar>f r\<bar> < tol" "r = spec_seed1 g \<or> \<not> spec_invalid_candidate r"
proof -
  from solve_classify [of n f g tol] assms obtain k where
    k: "spec_reaches f g tol k" "spec_met f g tol k" "r = snd (spec_secant_pair f g k)" by auto
  from k(2,3) show "\<bar>f r\<bar> < tol" by (simp add: spec_met_def)
  show "r = spec_seed1 g \<or> \<not> spec_invalid_candidate r"
  proof (cases k)
    case 0
    with k(3) show ?thesis by (simp add: spec_secant_pair_def)
  next
    case (Suc j)
    with reaches_less [OF k(1), of j] k(3) show ?thesis by simp
  qed
qed

lemma solve_errors:
  "solve f g tol n = Inl e \<Longrightarrow> e = Diverged \<or> e = NotConverged n"
  using solve_classify [of n f g tol] by auto

lemma valid_candidate_Fin: "\<not> spec_invalid_candidate r \<Longrightarrow> \<exists>x. r = Fin x \<and> 0 < x"
  by (cases r) (auto simp: spec_invalid_candidate_def)

section \<open>Verification of the cubic solver\<close>


lemma trig_branch_facts:
  fixes p q :: real
  assumes "q * q / 4 + p * p * p / 27 < 0"
  defines "r \<equiv> sqrt (- (p * p * p) / 27)"
  shows "0 < - (p * p * p) / 27" "0 < r" "- 1 < - q / (2 * r)" "- q / (2 * r) < 1"
proof -
  have q2: "0 \<le> q * q / 4" by simp
  with assms(1) show pos: "0 < - (p * p * p) / 27" by linarith
  then show r: "0 < r" by (simp add: r_def)
  have r2: "r\<^sup>2 = - (p * p * p) / 27" using pos by (simp add: r_def)
  have "q\<^sup>2 < (2 * r)\<^sup>2" using assms(1) r2 by (simp add: power_mult_distrib power2_eq_square)
  then have "\<bar>q\<bar>\<^sup>2 < (2 * r)\<^sup>2" by simp
  moreover have "0 \<le> 2 * r" using r by simp
  ultimately have "\<bar>q\<bar> < 2 * r" by (rule power2_less_imp_less)
  then have q1: "q < 2 * r" and q2: "- (2 * r) < q" by linarith+
  have r2p: "0 < 2 * r" using r by simp
  show "- 1 < - q / (2 * r)"
    using q1 pos_less_divide_eq [OF r2p, of "- 1" "- q"] by simp
  show "- q / (2 * r) < 1"
    using q2 pos_divide_less_eq [OF r2p, of "- q" 1] by simp
qed

text \<open>
  The computation of \<^const>\<open>solveCubic\<close> on finite coefficients, in real arithmetic.
\<close>

lemma solveCubic_real:
  "(let p = c / a - (b * b) / (3 * a * a);
        q = (2 * b * b * b) / (27 * a * a * a) - (b * c) / (3 * a * a) + d / a;
        term1 = q / 2;
        term2 = (q * q) / 4 + (p * p * p) / 27;
        r = sqrt (- (p * p * p) / 27);
        phi = arccos (- q / (2 * r));
        root1 = 2 * root 3 r * cos (phi / 3) - b / (3 * a)
    in solveCubic (Fin a) (Fin b) (Fin c) (Fin d) =
         (if \<bar>a\<bar> < 1 / 10 ^ 9 then None
          else if 0 \<le> term2 then
            Some (Fin (root 3 (- term1 + sqrt term2) + root 3 (- term1 - sqrt term2) - b / (3 * a)))
          else Some (Fin root1)))"
proof -
  define p where "p = c / a - (b * b) / (3 * a * a)"
  define q where "q = (2 * b * b * b) / (27 * a * a * a) - (b * c) / (3 * a * a) + d / a"
  define term2 where "term2 = (q * q) / 4 + (p * p * p) / 27"
  define r where "r = sqrt (- (p * p * p) / 27)"
  define phi where "phi = arccos (- q / (2 * r))"
  have trig: "0 < - (p * p * p) / 27" "0 < r" "- 1 < - q / (2 * r)" "- q / (2 * r) < 1"
    if "term2 < 0"
    using trig_branch_facts [of q p] that unfolding term2_def r_def by blast+
  have code: "solveCubic (Fin a) (Fin b) (Fin c) (Fin d) =
         (if \<bar>a\<bar> < 1 / 10 ^ 9 then None
          else if 0 \<le> term2 then
            Some (Fin (root 3 (- (q / 2) + sqrt term2) + root 3 (- (q / 2) - sqrt term2) - b / (3 * a)))
          else Some (Fin (2 * root 3 r * cos (phi / 3) - b / (3 * a))))"
  proof (cases "\<bar>a\<bar> < 1 / 10 ^ 9")
    case True
    then show ?thesis by (simp add: solveCubic_def)
  next
    case False
    then have a: "a \<noteq> 0" by auto
    have pq: "Fin c / Fin a - (Fin b * Fin b) / (Fin 3 * Fin a * Fin a) = Fin p"
      "(Fin 2 * Fin b * Fin b * Fin b) / (Fin 27 * Fin a * Fin a * Fin a)
         - (Fin b * Fin c) / (Fin 3 * Fin a * Fin a) + Fin d / Fin a = Fin q"
      using a by (simp_all add: p_def q_def)
    have sh: "Fin b / (Fin 3 * Fin a) = Fin (b / (3 * a))" using a by simp
    have t2: "(Fin q * Fin q) / Fin 4 + (Fin p * Fin p * Fin p) / Fin 27 = Fin term2"
      by (simp add: term2_def)
    show ?thesis
    proof (cases "0 \<le> term2")
      case True
      then show ?thesis
        using False unfolding solveCubic_def pq Let_def t2 sh by simp
    next
      case neg: False
      then have n: "term2 < 0" by simp
      have rr: "Math_sqrt ((- (Fin p * Fin p * Fin p)) / Fin 27) = Fin r"
        using trig(1) [OF n] by (simp add: r_def)
      have ph: "Math_acos ((- Fin q) / (Fin 2 * Fin r)) = Fin phi"
        using trig(2-4) [OF n] by (simp add: phi_def)
      show ?thesis
        using False neg unfolding solveCubic_def pq Let_def t2 sh rr ph by simp
    qed
  qed
  then show ?thesis
    unfolding Let_def p_def [symmetric] q_def [symmetric] term2_def [symmetric]
      r_def [symmetric] phi_def [symmetric] .
qed



text \<open>
  What \<^const>\<open>solveCubic\<close> returns is a root: the Cardano sum and the trigonometric form
  both solve the depressed cubic \<open>t\<^sup>3 + p t + q = 0\<close>, and the shift by \<open>b/(3a)\<close> leads
  back to the cubic of the call.
\<close>

lemma root3_cube: "root 3 x ^ 3 = x"
  by (rule odd_real_root_pow) simp

lemma root3_of_cube: "root 3 (x ^ 3) = x"
  by (rule odd_real_root_power_cancel) simp

lemma cardano_depressed:
  fixes p q :: real
  assumes t2: "0 \<le> q * q / 4 + p * p * p / 27"
  defines "s \<equiv> sqrt (q * q / 4 + p * p * p / 27)"
  defines "t \<equiv> root 3 (- (q / 2) + s) + root 3 (- (q / 2) - s)"
  shows "t ^ 3 + p * t + q = 0"
proof -
  define u where "u = root 3 (- (q / 2) + s)"
  define v where "v = root 3 (- (q / 2) - s)"
  have s2: "s * s = q * q / 4 + p * p * p / 27" using t2 by (simp add: s_def)
  have u3: "u ^ 3 = - (q / 2) + s" by (simp add: u_def root3_cube)
  have v3: "v ^ 3 = - (q / 2) - s" by (simp add: v_def root3_cube)
  have "u * v = root 3 ((- (q / 2) + s) * (- (q / 2) - s))"
    by (simp add: u_def v_def real_root_mult)
  also have "(- (q / 2) + s) * (- (q / 2) - s) = q * q / 4 - s * s" by (simp add: algebra_simps)
  also have "\<dots> = (- p / 3) ^ 3" unfolding s2 by (simp add: power3_eq_cube)
  finally have uv: "u * v = - p / 3" by (simp only: root3_of_cube)
  have "(u + v) ^ 3 = u ^ 3 + v ^ 3 + 3 * (u * v) * (u + v)"
    by (simp add: power3_eq_cube algebra_simps)
  also have "\<dots> = - q - p * (u + v)" unfolding u3 v3 uv by simp
  finally show ?thesis by (simp add: t_def u_def v_def)
qed

lemma trig_depressed:
  fixes p q :: real
  assumes t2: "q * q / 4 + p * p * p / 27 < 0"
  defines "r \<equiv> sqrt (- (p * p * p) / 27)"
  defines "t \<equiv> 2 * root 3 r * cos (arccos (- q / (2 * r)) / 3)"
  shows "t ^ 3 + p * t + q = 0"
proof -
  note f = trig_branch_facts [OF t2, folded r_def]
  define m where "m = sqrt (- p / 3)"
  have p3: "0 < - (p * p * p)" using f(1) by simp
  have pneg: "p < 0"
  proof (rule ccontr)
    assume "\<not> p < 0"
    then have "0 \<le> p" by simp
    then have "0 \<le> p * p * p" by simp
    with p3 show False by simp
  qed
  then have m0: "0 < m" and m2: "m * m = - p / 3" by (simp_all add: m_def)
  have "r = sqrt ((m * m) * (m * m) * (m * m))" unfolding m2 r_def by (simp add: algebra_simps)
  also have "\<dots> = m * m * m" using m0 by (simp add: real_sqrt_mult)
  finally have r: "r = m ^ 3" by (simp add: power3_eq_cube)
  then have rm: "root 3 r = m" by (simp only: root3_of_cube)
  define th where "th = arccos (- q / (2 * r)) / 3"
  have "cos (3 * th) = - q / (2 * r)" unfolding th_def using f(3,4) by simp
  then have c3: "4 * cos th ^ 3 - 3 * cos th = - q / (2 * r)" by (simp add: cos_treble_cos)
  have t: "t = 2 * m * cos th" by (simp add: t_def rm th_def)
  have pm: "p = - 3 * (m * m)" using m2 by simp
  have "t ^ 3 + p * t = 2 * (m * m * m) * (4 * cos th ^ 3) + (- 3 * (m * m)) * (2 * m * cos th)"
    unfolding t pm by (simp add: power3_eq_cube algebra_simps)
  also have "\<dots> = 2 * r * (4 * cos th ^ 3 - 3 * cos th)"
    unfolding r by (simp add: power3_eq_cube algebra_simps)
  also have "\<dots> = - q" unfolding c3 using f(2) by simp
  finally show ?thesis by simp
qed

lemma depress_identity:
  fixes a b c d t :: real
  assumes a: "a \<noteq> 0"
  defines "p \<equiv> c / a - (b * b) / (3 * a * a)"
  defines "q \<equiv> (2 * b * b * b) / (27 * a * a * a) - (b * c) / (3 * a * a) + d / a"
  defines "y \<equiv> t - b / (3 * a)"
  shows "a * y ^ 3 + b * y\<^sup>2 + c * y + d = a * (t ^ 3 + p * t + q)"
  using a unfolding p_def q_def y_def
  by (simp add: field_simps power3_eq_cube power2_eq_square)

lemma solveCubic_root:
  assumes a: "\<not> \<bar>a\<bar> < 1 / 10 ^ 9"
  shows "\<exists>y. solveCubic (Fin a) (Fin b) (Fin c) (Fin d) = Some (Fin y)
           \<and> a * y ^ 3 + b * y\<^sup>2 + c * y + d = 0"
proof -
  from a have a0: "a \<noteq> 0" by auto
  define p where "p = c / a - (b * b) / (3 * a * a)"
  define q where "q = (2 * b * b * b) / (27 * a * a * a) - (b * c) / (3 * a * a) + d / a"
  show ?thesis
  proof (cases "0 \<le> q * q / 4 + p * p * p / 27")
    case True
    define t where "t = root 3 (- (q / 2) + sqrt (q * q / 4 + p * p * p / 27))
        + root 3 (- (q / 2) - sqrt (q * q / 4 + p * p * p / 27))"
    have "solveCubic (Fin a) (Fin b) (Fin c) (Fin d) = Some (Fin (t - b / (3 * a)))"
      using solveCubic_real [of c a b d] a True
      unfolding Let_def p_def [symmetric] q_def [symmetric] by (simp add: t_def)
    moreover have "t ^ 3 + p * t + q = 0"
      unfolding t_def by (rule cardano_depressed [OF True])
    then have "a * (t - b / (3 * a)) ^ 3 + b * (t - b / (3 * a))\<^sup>2 + c * (t - b / (3 * a)) + d = 0"
      using depress_identity [OF a0, where b = b and c = c and t = t and d = d] unfolding p_def q_def by simp
    ultimately show ?thesis by blast
  next
    case False
    then have neg: "q * q / 4 + p * p * p / 27 < 0" by simp
    define t where "t = 2 * root 3 (sqrt (- (p * p * p) / 27))
        * cos (arccos (- q / (2 * sqrt (- (p * p * p) / 27))) / 3)"
    have "solveCubic (Fin a) (Fin b) (Fin c) (Fin d) = Some (Fin (t - b / (3 * a)))"
      using solveCubic_real [of c a b d] a False
      unfolding Let_def p_def [symmetric] q_def [symmetric] by (simp add: t_def)
    moreover have "t ^ 3 + p * t + q = 0"
      unfolding t_def by (rule trig_depressed [OF neg])
    then have "a * (t - b / (3 * a)) ^ 3 + b * (t - b / (3 * a))\<^sup>2 + c * (t - b / (3 * a)) + d = 0"
      using depress_identity [OF a0, where b = b and c = c and t = t and d = d] unfolding p_def q_def by simp
    ultimately show ?thesis by blast
  qed
qed


section \<open>Verification of the isotherm model\<close>

text \<open>
  Claim C7. Whatever the constants of the circuit (so for every inputs and every trial
  V%), each isotherm mapping of the source sends every input \<open>\<le> 0\<close>, and \<open>0\<close> in
  particular, to \<open>0\<close>: \<^verbatim>\<open>getCu_or_from_Cu_aq\<close> and \<^verbatim>\<open>getCu_aq_from_Cu_or\<close> of the
  extraction circuit and \<^verbatim>\<open>getCu_or_from_Cu_aq_stripping\<close> of the stripping circuit (which
  has no mapping from organic to aqueous).
\<close>

theorem isotherm_nonpositive:
  "Cu \<le> Fin 0 \<Longrightarrow>
     getCu_or_from_Cu_aq kex Cu = Some (Fin 0)
     \<and> getCu_aq_from_Cu_or kex Cu = Some (Fin 0)
     \<and> getCu_or_from_Cu_aq_stripping kst Cu = Some (Fin 0)"
  by (simp add: getCu_or_from_Cu_aq_def getCu_aq_from_Cu_or_def getCu_or_from_Cu_aq_stripping_def)

theorem isotherm_nonpositive_witness:
  "Fin 0 \<le> Fin 0
   \<and> getCu_or_from_Cu_aq (extraction_constants initial_inputs (Fin 17.1)) (Fin 0) = Some (Fin 0)
   \<and> getCu_aq_from_Cu_or (extraction_constants initial_inputs (Fin 17.1)) (Fin 0) = Some (Fin 0)
   \<and> getCu_or_from_Cu_aq_stripping (stripping_constants initial_inputs (Fin 17.1)) (Fin 0)
       = Some (Fin 0)"
  using isotherm_nonpositive [of "Fin 0" "extraction_constants initial_inputs (Fin 17.1)"
      "stripping_constants initial_inputs (Fin 17.1)"]
  by simp

text \<open>The computation of \<^verbatim>\<open>getCu_aq_from_Cu_or\<close> in real arithmetic, and its quadratic.\<close>

lemma getCu_aq_real:
  "0 < y \<Longrightarrow> b \<noteq> 0 \<Longrightarrow>
     (let h = (e * y + f) * (c + d * y)\<^sup>2 / y;
          a' = b\<^sup>2; b' = 2 * a * b - h; c' = a\<^sup>2;
          disc = b' * b' - 4 * a' * c';
          x = (h - 2 * a * b - sqrt disc) / (2 * a')
      in getCu_aq_from_Cu_or
           \<lparr>a_ex = Fin a, b_ex = Fin b, c_ex = Fin c, d_ex = Fin d, e_ex = Fin e, f_ex = Fin f\<rparr>
           (Fin y)
         = (if disc < 0 then None else Some (Fin x))
       \<and> (0 \<le> disc \<longrightarrow> a' * x\<^sup>2 + b' * x + c' = 0
             \<and> (\<forall>z. a' * z\<^sup>2 + b' * z + c' = 0 \<longrightarrow> x \<le> z)))"
proof -
  assume y: "0 < y" and b: "b \<noteq> 0"
  define h where "h = (e * y + f) * (c + d * y)\<^sup>2 / y"
  define b' where "b' = 2 * a * b - h"
  define disc where "disc = b' * b' - 4 * b\<^sup>2 * a\<^sup>2"
  define x where "x = (h - 2 * a * b - sqrt disc) / (2 * b\<^sup>2)"
  have code: "getCu_aq_from_Cu_or
           \<lparr>a_ex = Fin a, b_ex = Fin b, c_ex = Fin c, d_ex = Fin d, e_ex = Fin e, f_ex = Fin f\<rparr>
           (Fin y) = (if disc < 0 then None else Some (Fin x))"
    using y b by (simp add: getCu_aq_from_Cu_or_def Let_def h_def b'_def disc_def x_def)
  have root: "b\<^sup>2 * x\<^sup>2 + b' * x + a\<^sup>2 = 0 \<and> (\<forall>z. b\<^sup>2 * z\<^sup>2 + b' * z + a\<^sup>2 = 0 \<longrightarrow> x \<le> z)"
    if d: "0 \<le> disc"
  proof -
    have b2: "0 < b\<^sup>2" using b by simp
    have xb: "x = (- b' - sqrt disc) / (2 * b\<^sup>2)" by (simp add: x_def b'_def)
    have sq: "(sqrt disc)\<^sup>2 = b'\<^sup>2 - 4 * b\<^sup>2 * a\<^sup>2" using d by (simp add: disc_def power2_eq_square)
    have eq: "b\<^sup>2 * z\<^sup>2 + b' * z + a\<^sup>2 = ((2 * b\<^sup>2 * z + b')\<^sup>2 - (sqrt disc)\<^sup>2) / (4 * b\<^sup>2)" for z
      using b unfolding sq by (simp add: field_simps power2_eq_square)
    have "2 * b\<^sup>2 * x + b' = - sqrt disc" using b by (simp add: xb field_simps)
    then have r1: "b\<^sup>2 * x\<^sup>2 + b' * x + a\<^sup>2 = 0" unfolding eq by simp
    have r2: "x \<le> z" if "b\<^sup>2 * z\<^sup>2 + b' * z + a\<^sup>2 = 0" for z
    proof -
      from that have "(2 * b\<^sup>2 * z + b')\<^sup>2 = (sqrt disc)\<^sup>2" unfolding eq using b2 by simp
      then have "\<bar>2 * b\<^sup>2 * z + b'\<bar> = \<bar>sqrt disc\<bar>" by (simp only: power2_eq_iff abs_eq_iff) 
      then have "- sqrt disc \<le> 2 * b\<^sup>2 * z + b'" using d by (simp add: abs_if split: if_splits)
      then have "(- b' - sqrt disc) \<le> z * (2 * b\<^sup>2)" by (simp add: algebra_simps)
      then show ?thesis unfolding xb using b2 by (simp add: pos_divide_le_eq)
    qed
    from r1 r2 show ?thesis by blast
  qed
  from code root show ?thesis
    unfolding Let_def h_def [symmetric] b'_def [symmetric] disc_def [symmetric] x_def [symmetric]
    by blast
qed

text \<open>
  Claim C8. For every \<open>Cu_or > 0\<close> and constants \<open>(a, b, c, d, e, f)\<close> with \<open>b \<noteq> 0\<close>
  (the source fixes \<open>b = -1.54\<close>), \<^verbatim>\<open>getCu_aq_from_Cu_or\<close> forms \<open>h\<close> and the quadratic
  with \<open>a' = b\<^sup>2\<close>, \<open>b' = 2ab - h\<close>, \<open>c' = a\<^sup>2\<close>; it returns nothing exactly when the
  discriminant is negative, and otherwise \<open>(h - 2ab - sqrt disc) / (2a')\<close>, which is a root
  of the quadratic and not larger than any other root.
\<close>

theorem getCu_aq_from_Cu_or_quadratic:
  "0 < y \<Longrightarrow> b \<noteq> 0 \<Longrightarrow>
     (let h = (e * y + f) * (c + d * y)\<^sup>2 / y;
          a' = b\<^sup>2; b' = 2 * a * b - h; c' = a\<^sup>2;
          disc = b' * b' - 4 * a' * c';
          x = (h - 2 * a * b - sqrt disc) / (2 * a')
      in getCu_aq_from_Cu_or
           \<lparr>a_ex = Fin a, b_ex = Fin b, c_ex = Fin c, d_ex = Fin d, e_ex = Fin e, f_ex = Fin f\<rparr>
           (Fin y)
         = (if disc < 0 then None else Some (Fin x))
       \<and> (0 \<le> disc \<longrightarrow> a' * x\<^sup>2 + b' * x + c' = 0
             \<and> (\<forall>z. a' * z\<^sup>2 + b' * z + c' = 0 \<longrightarrow> x \<le> z)))"
  by (rule getCu_aq_real)

theorem getCu_aq_from_Cu_or_quadratic_witness:
  "(0::real) < 1 \<and> (- 1::real) \<noteq> 0
   \<and> getCu_aq_from_Cu_or
        \<lparr>a_ex = Fin 1, b_ex = Fin (- 1), c_ex = Fin 1, d_ex = Fin (- 1), e_ex = Fin (- 1),
          f_ex = Fin 2\<rparr> (Fin 1) = Some (Fin 1)
   \<and> getCu_aq_from_Cu_or
        \<lparr>a_ex = Fin 1, b_ex = Fin (- 1), c_ex = Fin 2, d_ex = Fin (- 1), e_ex = Fin (- 2),
          f_ex = Fin 1\<rparr> (Fin 1) = None"
  using getCu_aq_from_Cu_or_quadratic [of 1 "- 1" "- 1" 2 1 "- 1" 1]
    getCu_aq_from_Cu_or_quadratic [of 1 "- 1" "- 2" 1 2 "- 1" 1]
  by (simp add: Let_def)

text \<open>
  The organic value of a positive aqueous value solves the isotherm equation
  \<open>(e y + f) (c + d y)\<^sup>2 = g y\<close>, of which the cubic of the source is the normal form; with
  the signs of the extraction constants every solution is positive.
\<close>

lemma getCu_or_root:
  assumes x: "0 < x" and d: "d \<noteq> 0" and e: "e \<noteq> 0"
  shows "\<exists>y. getCu_or_from_Cu_aq
              \<lparr>a_ex = Fin a, b_ex = Fin b, c_ex = Fin c, d_ex = Fin d, e_ex = Fin e, f_ex = Fin f\<rparr>
              (Fin x) = Some (Fin y)
           \<and> (e * y + f) * (c + d * y)\<^sup>2 = (a + b * x)\<^sup>2 / x * y"
proof -
  define g where "g = (a + b * x)\<^sup>2 / x"
  define al where "al = (2 * c * d * e + d\<^sup>2 * f) / (d\<^sup>2 * e)"
  define la where "la = (2 * c * d * f + c\<^sup>2 * e - g) / (d\<^sup>2 * e)"
  define ep where "ep = (f * c\<^sup>2) / (d\<^sup>2 * e)"
  have de: "d\<^sup>2 * e \<noteq> 0" using d e by simp
  have call: "getCu_or_from_Cu_aq
              \<lparr>a_ex = Fin a, b_ex = Fin b, c_ex = Fin c, d_ex = Fin d, e_ex = Fin e, f_ex = Fin f\<rparr>
              (Fin x) = solveCubic (Fin 1) (Fin al) (Fin la) (Fin ep)"
    using x de by (simp add: getCu_or_from_Cu_aq_def Let_def g_def al_def la_def ep_def)
  have "\<not> \<bar>1::real\<bar> < 1 / 10 ^ 9" by simp
  from solveCubic_root [OF this, of al la ep] obtain y where
    y: "solveCubic (Fin 1) (Fin al) (Fin la) (Fin ep) = Some (Fin y)"
      "1 * y ^ 3 + al * y\<^sup>2 + la * y + ep = 0" by blast
  have "(e * y + f) * (c + d * y)\<^sup>2 - g * y = (d\<^sup>2 * e) * (1 * y ^ 3 + al * y\<^sup>2 + la * y + ep)"
    using d e unfolding al_def la_def ep_def
    by (simp add: field_simps power3_eq_cube power2_eq_square)
  with y(2) have "(e * y + f) * (c + d * y)\<^sup>2 = g * y" by simp
  with y(1) call show ?thesis unfolding g_def by auto
qed

lemma isotherm_root_positive:
  fixes c d e f g y :: real
  assumes "0 < c" "d < 0" "e < 0" "0 < f" "0 \<le> g"
    and eq: "(e * y + f) * (c + d * y)\<^sup>2 = g * y"
  shows "0 < y"
proof (rule ccontr)
  assume "\<not> 0 < y"
  then have y: "y \<le> 0" by simp
  have "0 \<le> e * y" using y \<open>e < 0\<close> by (simp add: mult_nonpos_nonpos)
  then have 1: "0 < e * y + f" using \<open>0 < f\<close> by linarith
  have "0 \<le> d * y" using y \<open>d < 0\<close> by (simp add: mult_nonpos_nonpos)
  then have "0 < c + d * y" using \<open>0 < c\<close> by linarith
  then have 2: "0 < (c + d * y)\<^sup>2" by simp
  from 1 2 have "0 < (e * y + f) * (c + d * y)\<^sup>2" by (rule mult_pos_pos)
  moreover have "g * y \<le> 0" using y \<open>0 \<le> g\<close> by (simp add: mult_nonneg_nonpos)
  ultimately show False using eq by simp
qed

lemma extraction_constants_Fin:
  assumes "plsAcid i = Fin pa" "plsCu i = Fin pc" "0 < v"
  shows "extraction_constants i (Fin v) =
     \<lparr> a_ex = Fin (pa + 1.54 * pc), b_ex = Fin (- 1.54), c_ex = Fin (3.303 * v),
       d_ex = Fin (- 3.0842), e_ex = Fin (- 25.698 * v powr (- 1.704)),
       f_ex = Fin (10.663 * v powr (- 0.608)) \<rparr>"
  using assms by (simp add: extraction_constants_def)

lemma getCu_or_positive:
  assumes i: "plsAcid i = Fin pa" "plsCu i = Fin pc" and v: "0 < v" and x: "0 < x"
  shows "\<exists>y. 0 < y \<and> getCu_or_from_Cu_aq (extraction_constants i (Fin v)) (Fin x) = Some (Fin y)"
proof -
  define e where "e = - 25.698 * v powr (- 1.704)"
  define f where "f = 10.663 * v powr (- 0.608)"
  have e: "e < 0" and f: "0 < f" using v by (simp_all add: e_def f_def)
  have c: "0 < 3.303 * v" using v by simp
  from getCu_or_root [of x "- 3.0842" e "pa + 1.54 * pc" "- 1.54" "3.303 * v" f] x e
  obtain y where y: "getCu_or_from_Cu_aq
          \<lparr>a_ex = Fin (pa + 1.54 * pc), b_ex = Fin (- 1.54), c_ex = Fin (3.303 * v),
             d_ex = Fin (- 3.0842), e_ex = Fin e, f_ex = Fin f\<rparr> (Fin x) = Some (Fin y)"
      "(e * y + f) * (3.303 * v + - 3.0842 * y)\<^sup>2 = (pa + 1.54 * pc + - 1.54 * x)\<^sup>2 / x * y"
    by auto
  have g: "0 \<le> (pa + 1.54 * pc + - 1.54 * x)\<^sup>2 / x" using x by simp
  have "0 < y"
    by (rule isotherm_root_positive [OF c _ e f g y(2)]) simp
  with y(1) show ?thesis
    unfolding extraction_constants_Fin [OF i v] e_def f_def by blast
qed

section \<open>Verification of the stripping guard\<close>

text \<open>
  Claim C5. For every result of the extraction block: when \<open>LO \<le> SO_extraction\<close> the
  stripping block throws its model error, before the ratio is formed; otherwise it goes
  on and reports \<open>O_A_st = (adCu - spCu) / (LO - SO_extraction)\<close>, and then the
  denominator is not \<open>\<le> 0\<close> (it is positive unless one of the two numbers is \<open>NaN\<close>).
\<close>

theorem stripping_guard:
  "(lo ex \<le> ex_so ex \<longrightarrow> stripping i V ex = Inl ModelInconsistency)
   \<and> (\<not> lo ex \<le> ex_so ex \<longrightarrow>
        (\<exists>r. stripping i V ex = Inr r \<and> o_a_st r = (adCu i - spCu i) / (lo ex - ex_so ex))
        \<and> \<not> lo ex - ex_so ex \<le> Fin 0
        \<and> (isNaN (lo ex) \<or> isNaN (ex_so ex) \<or> Fin 0 < lo ex - ex_so ex))"
  using not_le_diff [of "lo ex" "ex_so ex"] by (simp add: stripping_def Let_def)

theorem stripping_guard_witness:
  "stripping initial_inputs (Fin 17)
     \<lparr> ml = Some (Fin 5), lo = Fin 1, ex_so = Fin 2, raff = Fin 1, ex_recovery = Fin 50,
       raffAcid = Fin 3 \<rparr> = Inl ModelInconsistency
   \<and> (\<exists>r. stripping initial_inputs (Fin 17)
          \<lparr> ml = Some (Fin 5), lo = Fin 4, ex_so = Fin 1, raff = Fin 1, ex_recovery = Fin 50,
            raffAcid = Fin 3 \<rparr> = Inr r \<and> o_a_st r = Fin 5)"
  using stripping_guard [of "\<lparr> ml = Some (Fin 5), lo = Fin 1, ex_so = Fin 2, raff = Fin 1,
        ex_recovery = Fin 50, raffAcid = Fin 3 \<rparr>" initial_inputs "Fin 17"]
    stripping_guard [of "\<lparr> ml = Some (Fin 5), lo = Fin 4, ex_so = Fin 1, raff = Fin 1,
        ex_recovery = Fin 50, raffAcid = Fin 3 \<rparr>" initial_inputs "Fin 17"]
  by (simp add: initial_inputs_def)

section \<open>The degenerate scenario: feed copper zero\<close>

lemma zero_feed_ml_lo:
  assumes "plsCu i = Fin 0" "percentageML i = Fin pm"
  shows "getCu_or_from_Cu_aq (extraction_constants i V) (plsCu i) = Some (Fin 0)"
    "ToNumber (getCu_or_from_Cu_aq (extraction_constants i V) (plsCu i))
       * (percentageML i / Fin 100) = Fin 0"
  using assms by (simp_all add: getCu_or_from_Cu_aq_def)

lemma extraction_zero_feed:
  assumes "plsCu i = Fin 0" "percentageML i = Fin pm"
  shows "extraction i V =
     (if \<bar>stage1_solver_func i (extraction_constants i V) (Fin 0) (Fin 0) (Fin 0.1)\<bar>
           < Fin (1 / 10 ^ 7)
      then
        (case solve (stage2_solver_func i (extraction_constants i V)
                 (Fin 0 - (Fin 0 - Fin 0.1) / o_a_ex i) (Fin 0.1))
               (Fin 0.1 * Fin 0.15) (Fin (1 / 10 ^ 7)) 100 of
           Inl e \<Rightarrow> Inl e
         | Inr X_out_E2 \<Rightarrow>
             Inr \<lparr> ml = Some (Fin 0), lo = Fin 0,
                   ex_so = (Fin 0 - (Fin 0 - Fin 0.1) / o_a_ex i) - (Fin 0.1 - X_out_E2) / o_a_ex i,
                   raff = X_out_E2,
                   ex_recovery = (Fin 0 - X_out_E2) / Fin 0 * Fin 100,
                   raffAcid = plsAcid i + (Fin 0 - X_out_E2) * Fin 1.54 \<rparr>)
      else Inl Diverged)"
  using assms
  by (simp add: extraction_def getCu_or_from_Cu_aq_def Let_def solve_guess_zero_100
      cong: sum.case_cong)


lemma extraction_zero_feed_returns:
  assumes i: "plsCu i = Fin 0" "percentageML i = Fin pm" and oa: "o_a_ex i = Fin oa" "0 < oa"
    and ex: "extraction i V = Inr ex"
  shows "ml ex = Some (Fin 0) \<and> lo ex = Fin 0
     \<and> (\<exists>x. 0 < x \<and> raff ex = Fin x \<and> ex_so ex = Fin (x / oa))"
proof -
  let ?f2 = "stage2_solver_func i (extraction_constants i V)
                 (Fin 0 - (Fin 0 - Fin 0.1) / o_a_ex i) (Fin 0.1)"
  from ex obtain X where X: "solve ?f2 (Fin 0.1 * Fin 0.15) (Fin (1 / 10 ^ 7)) 100 = Inr X"
    and r: "ex = \<lparr> ml = Some (Fin 0), lo = Fin 0,
                   ex_so = (Fin 0 - (Fin 0 - Fin 0.1) / o_a_ex i) - (Fin 0.1 - X) / o_a_ex i,
                   raff = X,
                   ex_recovery = (Fin 0 - X) / Fin 0 * Fin 100,
                   raffAcid = plsAcid i + (Fin 0 - X) * Fin 1.54 \<rparr>"
    unfolding extraction_zero_feed [OF i] by (auto split: if_splits sum.splits)
  from solve_result(2) [OF X] have "\<exists>x. X = Fin x \<and> 0 < x"
  proof
    assume "X = spec_seed1 (Fin 0.1 * Fin 0.15)"
    then have "X = Fin 0.115 \<and> (0::real) < 0.115" by (simp add: spec_seed1_def)
    then show ?thesis by blast
  next
    assume "\<not> spec_invalid_candidate X"
    then show ?thesis by (rule valid_candidate_Fin)
  qed
  then obtain x where x: "X = Fin x" "0 < x" by blast
  have "ex_so ex = Fin (x / oa)"
    using oa by (simp add: r x diff_divide_distrib)
  with r x show ?thesis by simp
qed

lemma zero_feed_model_error:
  assumes i: "plsCu i = Fin 0" "percentageML i = Fin pm" and oa: "o_a_ex i = Fin oa" "0 < oa"
    and ex: "extraction i V = Inr ex"
  shows "stripping i V ex = Inl ModelInconsistency"
proof -
  from extraction_zero_feed_returns [OF i oa ex] obtain x where
    "lo ex = Fin 0" "0 < x" "ex_so ex = Fin (x / oa)" by blast
  with oa(2) show ?thesis by (simp add: stripping_def)
qed

text \<open>The initial inputs with feed copper \<open>0\<close>: stage 1 is far from its tolerance at \<open>0.1\<close>.\<close>

lemma not_within_tolerance: "z \<le> - 0.004 \<Longrightarrow> \<not> \<bar>z\<bar> < 1 / 10 ^ 7" for z :: real
  by (simp add: abs_less_iff)

lemma zero_feed_stage1:
  assumes v: "0 < v"
  shows "\<not> \<bar>stage1_solver_func zero_feed_inputs
             (extraction_constants zero_feed_inputs (Fin v))
             (Fin 0) (Fin 0) (Fin 0.1)\<bar> < Fin (1 / 10 ^ 7)"
proof -
  let ?i = zero_feed_inputs
  have "plsAcid ?i = Fin 1.96" "plsCu ?i = Fin 0" by (simp_all add: zero_feed_inputs_def initial_inputs_def)
  from getCu_or_positive [OF this v, of "0.1"] obtain y where
    y: "0 < y" "getCu_or_from_Cu_aq (extraction_constants ?i (Fin v)) (Fin 0.1) = Some (Fin y)"
    by auto
  have "stage1_solver_func ?i (extraction_constants ?i (Fin v)) (Fin 0) (Fin 0) (Fin 0.1)
      = Fin (- 0.08 - 0.95 * (y - 0.08))"
  proof -
    have "o_a_ex ?i = Fin 1.25" "effE1 ?i = Fin 95" by (simp_all add: zero_feed_inputs_def initial_inputs_def)
    then show ?thesis by (simp add: stage1_solver_func_def y(2) Let_def)
  qed
  moreover have "\<not> \<bar>- 0.08 - 0.95 * (y - 0.08)\<bar> < 1 / 10 ^ 7"
  proof -
    have "- 0.08 - 0.95 * (y - 0.08) \<le> - 0.004" using y(1) by (simp add: algebra_simps)
    then show ?thesis by (rule not_within_tolerance)
  qed
  ultimately show ?thesis by simp
qed

lemma zero_feed_initial:
  assumes v: "0 < v"
  shows "extraction zero_feed_inputs (Fin v) = Inl Diverged"
    "calculateAll_try zero_feed_inputs (Fin v) = Inl Diverged"
proof -
  let ?i = zero_feed_inputs
  have i: "plsCu ?i = Fin 0" "percentageML ?i = Fin 80" by (simp_all add: zero_feed_inputs_def initial_inputs_def)
  show e: "extraction ?i (Fin v) = Inl Diverged"
    unfolding extraction_zero_feed [OF i] using zero_feed_stage1 [OF v] by simp
  show "calculateAll_try ?i (Fin v) = Inl Diverged"
    by (simp add: calculateAll_try_def e)
qed

text \<open>
  With both stage efficiencies \<open>0\<close> and a very large O/A ratio the two stage solves do
  return at feed copper \<open>0\<close>, so the stripping guard is reached.
\<close>

lemma idle_stages:
  fixes i :: inputs
  defines "j \<equiv> zero_feed_inputs\<lparr>o_a_ex := Fin (10 ^ 7), effE1 := Fin 0, effE2 := Fin 0\<rparr>"
  shows "\<bar>stage1_solver_func j (extraction_constants j (Fin 17)) (Fin 0) (Fin 0) (Fin 0.1)\<bar>
           < Fin (1 / 10 ^ 7)"
    and "\<exists>ex. extraction j (Fin 17) = Inr ex"
proof -
  have f: "plsAcid j = Fin 1.96" "plsCu j = Fin 0" "percentageML j = Fin 80"
    "o_a_ex j = Fin (10 ^ 7)" "effE1 j = Fin 0" "effE2 j = Fin 0"
    by (simp_all add: j_def zero_feed_inputs_def initial_inputs_def)
  from getCu_or_positive [OF f(1,2), of 17 "0.1"] obtain y where
    y: "getCu_or_from_Cu_aq (extraction_constants j (Fin 17)) (Fin 0.1) = Some (Fin y)" by auto
  from getCu_or_positive [OF f(1,2), of 17 "0.115"] obtain y' where
    y': "getCu_or_from_Cu_aq (extraction_constants j (Fin 17)) (Fin 0.115) = Some (Fin y')" by auto
  show s1: "\<bar>stage1_solver_func j (extraction_constants j (Fin 17)) (Fin 0) (Fin 0) (Fin 0.1)\<bar>
           < Fin (1 / 10 ^ 7)"
    by (simp add: stage1_solver_func_def Let_def f y [simplified])
  have "\<bar>stage2_solver_func j (extraction_constants j (Fin 17))
             (Fin 0 - (Fin 0 - Fin 0.1) / o_a_ex j) (Fin 0.1) (Fin 0.115)\<bar> < Fin (1 / 10 ^ 7)"
    by (simp add: stage2_solver_func_def Let_def f y' [simplified])
  then have "solve (stage2_solver_func j (extraction_constants j (Fin 17))
                 (Fin 0 - (Fin 0 - Fin 0.1) / o_a_ex j) (Fin 0.1))
               (Fin 0.1 * Fin 0.15) (Fin (1 / 10 ^ 7)) (Suc 99) = Inr (Fin 0.115)"
    unfolding solve_def Let_def solve_loop.simps by simp
  then have "solve (stage2_solver_func j (extraction_constants j (Fin 17))
                 (Fin 0 - (Fin 0 - Fin 0.1) / o_a_ex j) (Fin 0.1))
               (Fin 0.1 * Fin 0.15) (Fin (1 / 10 ^ 7)) 100 = Inr (Fin 0.115)"
    by simp
  with s1 show "\<exists>ex. extraction j (Fin 17) = Inr ex"
    unfolding extraction_zero_feed [OF f(2,3)] by simp
qed

text \<open>
  Claim C6, as the code has it. For inputs with feed copper \<open>0\<close> (a finite max-loading
  percentage, a positive O/A ratio) and any trial V%: the extraction block computes
  \<open>ML = 0\<close> and \<open>LO = 0\<close>, and then seeds its stage-1 solve at \<open>0\<close>. Unless stage 1 is
  within tolerance at \<open>0.1\<close>, the block ends there with the divergence error and the
  stripping block is not run. Whenever the extraction block does return, the stripping
  block throws its model error. In every case the evaluation fails, with one of these
  errors, and \<^verbatim>\<open>calculateAll\<close> returns \<^verbatim>\<open>null\<close>.
\<close>

theorem zero_feed_evaluation_fails:
  "plsCu i = Fin 0 \<Longrightarrow> percentageML i = Fin pm \<Longrightarrow> o_a_ex i = Fin oa \<Longrightarrow> 0 < oa \<Longrightarrow>
     getCu_or_from_Cu_aq (extraction_constants i V) (plsCu i) = Some (Fin 0)
     \<and> ToNumber (getCu_or_from_Cu_aq (extraction_constants i V) (plsCu i))
           * (percentageML i / Fin 100) = Fin 0
     \<and> (\<not> \<bar>stage1_solver_func i (extraction_constants i V) (Fin 0) (Fin 0) (Fin 0.1)\<bar>
             < Fin (1 / 10 ^ 7)
          \<longrightarrow> extraction i V = Inl Diverged)
     \<and> (\<forall>ex. extraction i V = Inr ex \<longrightarrow>
            ml ex = Some (Fin 0) \<and> lo ex = Fin 0 \<and> stripping i V ex = Inl ModelInconsistency)
     \<and> (calculateAll_try i V = Inl Diverged \<or> calculateAll_try i V = Inl (NotConverged 100)
          \<or> calculateAll_try i V = Inl ModelInconsistency)
     \<and> calculateAll i V = None"
proof -
  assume i: "plsCu i = Fin 0" "percentageML i = Fin pm" and oa: "o_a_ex i = Fin oa" "0 < oa"
  note ml_lo = zero_feed_ml_lo [OF i, of V]
  have div: "extraction i V = Inl Diverged"
    if "\<not> \<bar>stage1_solver_func i (extraction_constants i V) (Fin 0) (Fin 0) (Fin 0.1)\<bar>
             < Fin (1 / 10 ^ 7)"
    unfolding extraction_zero_feed [OF i] using that by simp
  have ret: "ml ex = Some (Fin 0) \<and> lo ex = Fin 0 \<and> stripping i V ex = Inl ModelInconsistency"
    if "extraction i V = Inr ex" for ex
    using extraction_zero_feed_returns [OF i oa that] zero_feed_model_error [OF i oa that]
    by blast
  have errs: "e = Diverged \<or> e = NotConverged 100" if "extraction i V = Inl e" for e
    using that unfolding extraction_zero_feed [OF i]
    by (auto split: if_splits sum.splits dest: solve_errors)
  have tr: "calculateAll_try i V = Inl Diverged \<or> calculateAll_try i V = Inl (NotConverged 100)
          \<or> calculateAll_try i V = Inl ModelInconsistency"
  proof (cases "extraction i V")
    case (Inl e)
    with errs [OF Inl] show ?thesis by (auto simp: calculateAll_try_def)
  next
    case (Inr ex)
    with ret [OF Inr] show ?thesis by (simp add: calculateAll_try_def)
  qed
  then have "calculateAll i V = None" by (auto simp: calculateAll_def)
  with ml_lo div ret tr show ?thesis by blast
qed

theorem zero_feed_evaluation_fails_witness:
  "extraction zero_feed_inputs (Fin 17) = Inl Diverged
   \<and> calculateAll zero_feed_inputs (Fin 17) = None
   \<and> calculateAll_try
        (zero_feed_inputs\<lparr>o_a_ex := Fin (10 ^ 7), effE1 := Fin 0, effE2 := Fin 0\<rparr>) (Fin 17)
       = Inl ModelInconsistency"
proof -
  let ?j = "zero_feed_inputs\<lparr>o_a_ex := Fin (10 ^ 7), effE1 := Fin 0, effE2 := Fin 0\<rparr>"
  have i: "plsCu zero_feed_inputs = Fin 0" "percentageML zero_feed_inputs = Fin 80"
    "o_a_ex zero_feed_inputs = Fin 1.25" "(0::real) < 1.25"
    by (simp_all add: zero_feed_inputs_def initial_inputs_def)
  have j: "plsCu ?j = Fin 0" "percentageML ?j = Fin 80" "o_a_ex ?j = Fin (10 ^ 7)"
    "(0::real) < 10 ^ 7"
    by (simp_all add: zero_feed_inputs_def initial_inputs_def)
  from idle_stages(2) obtain ex where ex: "extraction ?j (Fin 17) = Inr ex" by blast
  from zero_feed_evaluation_fails [OF j, of "Fin 17"] ex
  have "calculateAll_try ?j (Fin 17) = Inl ModelInconsistency"
    by (simp add: calculateAll_try_def)
  moreover from zero_feed_evaluation_fails [OF i, of "Fin 17"] zero_feed_stage1 [of 17]
  have "extraction zero_feed_inputs (Fin 17) = Inl Diverged
     \<and> calculateAll zero_feed_inputs (Fin 17) = None" by simp
  ultimately show ?thesis by simp
qed

text \<open>
  Claim C6 as stated fails: for the initial inputs with feed copper \<open>0\<close> and the trial
  V% \<open>17\<close>, the extraction block yields no result; it throws the divergence error of
  \<^verbatim>\<open>solve\<close>, and that, not the model error of the stripping block, is what the evaluation
  raises.
\<close>

theorem zero_feed_counterexample:
  "plsCu zero_feed_inputs = Fin 0
   \<and> extraction zero_feed_inputs (Fin 17) = Inl Diverged
   \<and> calculateAll_try zero_feed_inputs (Fin 17) = Inl Diverged"
  using zero_feed_initial [of 17] by (simp add: zero_feed_inputs_def)

section \<open>Verification of the error policy of the orchestrator\<close>











section \<open>The round trip of the isotherm pair\<close>

text \<open>
  When the cubic has a double root \<open>r2\<close> and a simple root \<open>r1\<close>, \<open>term2\<close> is \<open>0\<close> and
  the Cardano sum is the simple root. This is the cubic of the isotherm when \<open>g = 0\<close>.
  For \<open>h > 0\<close> the isotherm equation has one solution only, as long as the zero \<open>-f/e\<close>
  of its first factor lies below the zero \<open>-c/d\<close> of its second; for the extraction
  constants that is so for every V% up to \<open>50\<close>.
\<close>

lemma solveCubic_double_root:
  "solveCubic (Fin 1) (Fin (- (r1 + 2 * r2))) (Fin (r2 * r2 + 2 * r1 * r2)) (Fin (- (r1 * (r2 * r2))))
     = Some (Fin r1)"
proof -
  define al where "al = - (r1 + 2 * r2)"
  define la where "la = r2 * r2 + 2 * r1 * r2"
  define ep where "ep = - (r1 * (r2 * r2))"
  define w where "w = (r1 - r2) / 3"
  define p where "p = la / 1 - (al * al) / (3 * 1 * 1)"
  define q where "q = (2 * al * al * al) / (27 * 1 * 1 * 1) - (al * la) / (3 * 1 * 1) + ep / 1"
  have p: "p = - 3 * (w * w)"
    unfolding p_def al_def la_def w_def by (simp add: field_simps)
  have q: "q = - 2 * (w * w * w)"
    unfolding q_def al_def la_def ep_def w_def by (simp add: field_simps)
  have t2: "(q * q) / 4 + (p * p * p) / 27 = 0" unfolding p q by (simp add: field_simps)
  have rt: "root 3 (- (q / 2)) = w"
  proof -
    have "- (q / 2) = w ^ 3" unfolding q by (simp add: power3_eq_cube)
    then show ?thesis by (simp only: root3_of_cube)
  qed
  have res: "2 * w - al / 3 = r1" unfolding w_def al_def by (simp add: field_simps)
  from solveCubic_real [of la 1 al ep]
  have "solveCubic (Fin 1) (Fin al) (Fin la) (Fin ep)
      = Some (Fin (root 3 (- (q / 2) + sqrt 0) + root 3 (- (q / 2) - sqrt 0) - al / (3 * 1)))"
    unfolding Let_def p_def [symmetric] q_def [symmetric] t2 by simp
  then show ?thesis
    unfolding al_def [symmetric] la_def [symmetric] ep_def [symmetric] by (simp add: rt res)
qed

lemma getCu_or_at_zero_g:
  assumes x: "0 < x" and g: "a + b * x = 0" and d: "d \<noteq> 0" and e: "e \<noteq> 0"
  shows "getCu_or_from_Cu_aq
           \<lparr>a_ex = Fin a, b_ex = Fin b, c_ex = Fin c, d_ex = Fin d, e_ex = Fin e, f_ex = Fin f\<rparr>
           (Fin x) = Some (Fin (- f / e))"
proof -
  define r1 where "r1 = - f / e"
  define r2 where "r2 = - c / d"
  have de: "d\<^sup>2 * e \<noteq> 0" using d e by simp
  have al: "(2 * c * d * e + d\<^sup>2 * f) / (d\<^sup>2 * e) = - (r1 + 2 * r2)"
    using d e unfolding r1_def r2_def by (simp add: field_simps power2_eq_square)
  have la: "(2 * c * d * f + c\<^sup>2 * e - (a + b * x)\<^sup>2 / x) / (d\<^sup>2 * e) = r2 * r2 + 2 * r1 * r2"
    using d e unfolding r1_def r2_def g by (simp add: field_simps power2_eq_square)
  have ep: "(f * c\<^sup>2) / (d\<^sup>2 * e) = - (r1 * (r2 * r2))"
    using d e unfolding r1_def r2_def by (simp add: field_simps power2_eq_square)
  have "getCu_or_from_Cu_aq
           \<lparr>a_ex = Fin a, b_ex = Fin b, c_ex = Fin c, d_ex = Fin d, e_ex = Fin e, f_ex = Fin f\<rparr>
           (Fin x)
     = solveCubic (Fin 1) (Fin ((2 * c * d * e + d\<^sup>2 * f) / (d\<^sup>2 * e)))
         (Fin ((2 * c * d * f + c\<^sup>2 * e - (a + b * x)\<^sup>2 / x) / (d\<^sup>2 * e)))
         (Fin ((f * c\<^sup>2) / (d\<^sup>2 * e)))"
    using x de by (simp add: getCu_or_from_Cu_aq_def Let_def)
  then show ?thesis unfolding al la ep solveCubic_double_root r1_def .
qed

lemma isotherm_root_order:
  fixes c d e f h y Y :: real
  assumes s: "0 < c" "d < 0" "e < 0" "0 < f" and o: "f * (- d) < c * (- e)" and h: "0 < h"
    and y: "(e * y + f) * (c + d * y)\<^sup>2 = h * y"
    and Y: "(e * Y + f) * (c + d * Y)\<^sup>2 = h * Y"
  shows "\<not> y < Y"
proof
  assume lt: "y < Y"
  have pos: "0 < y" "0 < Y"
    using isotherm_root_positive [OF s, of h] h y Y by simp_all
  have fac: "0 < e * z + f \<and> 0 < c + d * z"
    if z: "(e * z + f) * (c + d * z)\<^sup>2 = h * z" "0 < z" for z
  proof -
    have "0 < h * z" using h z(2) by simp
    with z(1) have "0 < (e * z + f) * (c + d * z)\<^sup>2" by simp
    moreover have "0 \<le> (c + d * z)\<^sup>2" by simp
    ultimately have 1: "0 < e * z + f"
      by (metis mult_le_0_iff not_le order_le_less)
    then have "(- e) * z < f" by simp
    moreover have "0 < - d" using s(2) by simp
    ultimately have "(- d) * ((- e) * z) < (- d) * f" by (rule mult_strict_left_mono)
    also have "\<dots> < c * (- e)" using o by (simp add: mult.commute)
    finally have "(- e) * ((- d) * z) < (- e) * c" by (simp add: mult.commute mult.left_commute)
    moreover have "0 < - e" using s(3) by simp
    ultimately have "(- d) * z < c" by (simp only: mult_less_cancel_left_pos)
    with 1 show ?thesis by simp
  qed
  from fac [OF y pos(1)] have fy: "0 < e * y + f" "0 < c + d * y" by simp_all
  from fac [OF Y pos(2)] have fY: "0 < e * Y + f" "0 < c + d * Y" by simp_all
  have 1: "e * Y + f < e * y + f" using lt s(3) by simp
  have 2: "c + d * Y < c + d * y" using lt s(2) by simp
  have "(c + d * Y)\<^sup>2 < (c + d * y)\<^sup>2"
    using 2 fY(2) by (intro power_strict_mono) simp_all
  with 1 fY(1) have "(e * Y + f) * (c + d * Y)\<^sup>2 < (e * y + f) * (c + d * y)\<^sup>2"
    by (intro mult_strict_mono) simp_all
  then have "h * Y < h * y" unfolding y Y .
  then have "Y < y" using h by simp
  with lt show False by simp
qed

lemma isotherm_root_unique:
  fixes c d e f h y Y :: real
  assumes s: "0 < c" "d < 0" "e < 0" "0 < f" and o: "f * (- d) < c * (- e)" and h: "0 < h"
    and y: "(e * y + f) * (c + d * y)\<^sup>2 = h * y"
    and Y: "(e * Y + f) * (c + d * Y)\<^sup>2 = h * Y"
  shows "Y = y"
  using isotherm_root_order [OF s o h y Y] isotherm_root_order [OF s o h Y y] by simp


lemma powr_small: "0 < v \<Longrightarrow> v \<le> 50 \<Longrightarrow> v powr 0.096 < 2" for v :: real
proof -
  assume v: "0 < v" "v \<le> 50"
  have "v powr 0.096 \<le> 50 powr 0.096" using v by (intro powr_mono2) simp_all
  also have "\<dots> \<le> 50 powr (1 / 8)" by (intro powr_mono) simp_all
  also have "\<dots> < 256 powr (1 / 8)" by (intro powr_less_mono2) simp_all
  also have "\<dots> = 2"
  proof -
    have "(256::real) = 2 powr 8" by simp
    then have "(256::real) powr (1 / 8) = (2 powr 8) powr (1 / 8)" by simp
    also have "\<dots> = 2" by (simp only: powr_powr) simp
    finally show ?thesis .
  qed
  finally show ?thesis .
qed

lemma extraction_constants_order:
  fixes v :: real
  assumes v: "0 < v" "v \<le> 50"
  shows "(10.663 * v powr (- 0.608)) * (- (- 3.0842)) < (3.303 * v) * (- (- 25.698 * v powr (- 1.704)))"
proof -
  define A where "A = v powr (- 1.704)"
  define w where "w = v powr 0.096"
  have A: "0 < A" using v by (simp add: A_def)
  have w: "w < 2" unfolding w_def by (rule powr_small [OF v])
  have "v powr (- 1.704) * v powr 1 * v powr 0.096 = v powr (- 1.704 + 1 + 0.096)"
    by (simp only: powr_add)
  also have "- 1.704 + 1 + 0.096 = (- 0.608 :: real)" by simp
  finally have B: "v powr (- 0.608) = A * v * w" using v by (simp add: A_def w_def)
  have Av: "0 < A * v" using A v by simp
  have "32.8868246 * w < 84.880494" using w by simp
  then have "(A * v) * (32.8868246 * w) < (A * v) * 84.880494"
    using Av by (simp only: mult_less_cancel_left_pos)
  then show ?thesis unfolding B A_def [symmetric] by (simp add: algebra_simps)
qed

text \<open>
  The round trip for the loadings with \<open>e y + f \<ge> 0\<close>, those up to \<open>-f/e\<close>, where \<open>h \<ge> 0\<close>.
  At \<open>h = 0\<close> the aqueous value is \<open>-a/b\<close> and the way back is the double-root case; for
  \<open>h > 0\<close> it is the only solution of the isotherm equation.
\<close>

lemma round_trip_lower_range:
  "plsAcid i = Fin pa \<Longrightarrow> plsCu i = Fin pc \<Longrightarrow> 0 < v \<Longrightarrow> v \<le> 50 \<Longrightarrow> 0 < y \<Longrightarrow>
   Fin 0 \<le> e_ex (extraction_constants i (Fin v)) * Fin y + f_ex (extraction_constants i (Fin v)) \<Longrightarrow>
   getCu_aq_from_Cu_or (extraction_constants i (Fin v)) (Fin y) = Some (Fin x) \<Longrightarrow> 0 < x \<Longrightarrow>
   getCu_or_from_Cu_aq (extraction_constants i (Fin v)) (Fin x) = Some (Fin y)"
proof -
  assume i: "plsAcid i = Fin pa" "plsCu i = Fin pc" and v: "0 < v" "v \<le> 50" and y: "0 < y"
    and ey: "Fin 0 \<le> e_ex (extraction_constants i (Fin v)) * Fin y
                       + f_ex (extraction_constants i (Fin v))"
    and aq: "getCu_aq_from_Cu_or (extraction_constants i (Fin v)) (Fin y) = Some (Fin x)"
    and x: "0 < x"
  define a where "a = pa + 1.54 * pc"
  define b :: real where "b = - 1.54"
  define c where "c = 3.303 * v"
  define d :: real where "d = - 3.0842"
  define e where "e = - 25.698 * v powr (- 1.704)"
  define f where "f = 10.663 * v powr (- 0.608)"
  define h where "h = (e * y + f) * (c + d * y)\<^sup>2 / y"
  note k = extraction_constants_Fin [OF i v(1), folded a_def b_def c_def d_def e_def f_def]
  have s: "0 < c" "d < 0" "e < 0" "0 < f" "b \<noteq> 0"
    using v by (simp_all add: c_def d_def e_def f_def b_def)
  have o: "f * (- d) < c * (- e)"
    unfolding f_def d_def c_def e_def by (rule extraction_constants_order [OF v])
  have ey': "0 \<le> e * y + f" using ey unfolding k by simp
  have hy: "(e * y + f) * (c + d * y)\<^sup>2 = h * y" using y by (simp add: h_def)
  have h0: "0 \<le> h" unfolding h_def using ey' y by simp
  have quad: "(a + b * x)\<^sup>2 = h * x"
  proof -
    from getCu_aq_real [OF y s(5), of e f c d a] aq
    have "0 \<le> (2 * a * b - h) * (2 * a * b - h) - 4 * b\<^sup>2 * a\<^sup>2"
      and "x = (h - 2 * a * b - sqrt ((2 * a * b - h) * (2 * a * b - h) - 4 * b\<^sup>2 * a\<^sup>2)) / (2 * b\<^sup>2)"
      unfolding k Let_def h_def [symmetric] by (auto split: if_splits)
    with getCu_aq_real [OF y s(5), of e f c d a]
    have "b\<^sup>2 * x\<^sup>2 + (2 * a * b - h) * x + a\<^sup>2 = 0"
      unfolding Let_def h_def [symmetric] by simp
    then show ?thesis by (simp add: power2_eq_square algebra_simps)
  qed
  show ?thesis
  proof (cases "h = 0")
    case True
    from quad True have "a + b * x = 0" by simp
    from getCu_or_at_zero_g [OF x this, of d e c f] s
    have r: "getCu_or_from_Cu_aq (extraction_constants i (Fin v)) (Fin x) = Some (Fin (- f / e))"
      unfolding k by simp
    from hy True have "e * y + f = 0 \<or> c + d * y = 0" by simp
    then have "e * y + f = 0"
    proof
      assume cd: "c + d * y = 0"
      have "(- d) * ((- e) * y) \<le> (- d) * f" using ey' s(2) by (intro mult_left_mono) simp_all
      also have "\<dots> < c * (- e)" using o by (simp add: mult.commute)
      also have "c = (- d) * y" using cd by simp
      finally show ?thesis by (simp add: mult.commute mult.left_commute)
    qed
    then have "y = - f / e" using s(3) by (simp add: field_simps)
    with r show ?thesis by simp
  next
    case False
    with h0 have hp: "0 < h" by simp
    from getCu_or_root [OF x, of d e a b c f] s obtain Y where
      Y: "getCu_or_from_Cu_aq (extraction_constants i (Fin v)) (Fin x) = Some (Fin Y)"
        "(e * Y + f) * (c + d * Y)\<^sup>2 = (a + b * x)\<^sup>2 / x * Y"
      unfolding k by auto
    have "(a + b * x)\<^sup>2 / x = h" using quad x by simp
    with Y(2) have "(e * Y + f) * (c + d * Y)\<^sup>2 = h * Y" by simp
    from isotherm_root_unique [OF s(1-4) o hp hy this] Y(1) show ?thesis by simp
  qed
qed

text \<open>
  A positive aqueous value is returned only for \<open>h \<ge> 0\<close>: with \<open>h < 0\<close> and a
  non-negative discriminant, the smaller root of the quadratic is not positive.
\<close>

lemma aqueous_positive_h_nonneg:
  fixes a b h :: real
  assumes d: "0 \<le> (2 * a * b - h) * (2 * a * b - h) - 4 * b\<^sup>2 * a\<^sup>2"
    and x: "0 < (h - 2 * a * b - sqrt ((2 * a * b - h) * (2 * a * b - h) - 4 * b\<^sup>2 * a\<^sup>2)) / (2 * b\<^sup>2)"
    and b: "b \<noteq> 0"
  shows "0 \<le> h"
proof (rule ccontr)
  assume "\<not> 0 \<le> h"
  then have h: "h < 0" by simp
  have b2: "0 < 2 * b\<^sup>2" using b by simp
  define s where "s = sqrt ((2 * a * b - h) * (2 * a * b - h) - 4 * b\<^sup>2 * a\<^sup>2)"
  have s0: "0 \<le> s" unfolding s_def using d by simp
  from x have "0 < (h - 2 * a * b - s) / (2 * b\<^sup>2)" unfolding s_def .
  with b2 have "0 < h - 2 * a * b - s" by (simp only: zero_less_divide_iff) auto
  with s0 have "2 * a * b < h" by linarith
  then have 1: "2 * (a * b) < h" by (simp add: mult.assoc)
  have "(2 * a * b - h) * (2 * a * b - h) - 4 * b\<^sup>2 * a\<^sup>2 = h * (h - 4 * (a * b))"
    by (simp add: power2_eq_square algebra_simps)
  with d have "0 \<le> h * (h - 4 * (a * b))" by simp
  with h have "h - 4 * (a * b) \<le> 0" by (simp add: zero_le_mult_iff)
  with 1 h show False by simp
qed

text \<open>
  In real arithmetic, then, the two mappings of the extraction circuit are inverse to each
  other: for finite feed acid and copper, a V% in \<open>(0, 50]\<close> and every \<open>y > 0\<close> with
  \<open>c + d y \<noteq> 0\<close>, if \<^verbatim>\<open>getCu_aq_from_Cu_or\<close> is defined at \<open>y\<close> and its value \<open>x\<close> is
  positive, then \<^verbatim>\<open>getCu_or_from_Cu_aq\<close> takes \<open>x\<close> back to \<open>y\<close>. This is a fact of the
  exact arithmetic of the model. Near the largest loading \<open>-f/e\<close> both \<open>term2\<close> and the
  discriminant are \<open>0\<close> up to rounding, and which branch the program takes on doubles
  there is outside this model.
\<close>

lemma round_trip_real:
  "plsAcid i = Fin pa \<Longrightarrow> plsCu i = Fin pc \<Longrightarrow> 0 < v \<Longrightarrow> v \<le> 50 \<Longrightarrow> 0 < y \<Longrightarrow>
   c_ex (extraction_constants i (Fin v)) + d_ex (extraction_constants i (Fin v)) * Fin y \<noteq> Fin 0 \<Longrightarrow>
   getCu_aq_from_Cu_or (extraction_constants i (Fin v)) (Fin y) = Some (Fin x) \<Longrightarrow> 0 < x \<Longrightarrow>
   getCu_or_from_Cu_aq (extraction_constants i (Fin v)) (Fin x) = Some (Fin y)"
proof -
  assume i: "plsAcid i = Fin pa" "plsCu i = Fin pc" and v: "0 < v" "v \<le> 50" and y: "0 < y"
    and cd: "c_ex (extraction_constants i (Fin v)) + d_ex (extraction_constants i (Fin v)) * Fin y
               \<noteq> Fin 0"
    and aq: "getCu_aq_from_Cu_or (extraction_constants i (Fin v)) (Fin y) = Some (Fin x)"
    and x: "0 < x"
  define a where "a = pa + 1.54 * pc"
  define b :: real where "b = - 1.54"
  define c where "c = 3.303 * v"
  define d :: real where "d = - 3.0842"
  define e where "e = - 25.698 * v powr (- 1.704)"
  define f where "f = 10.663 * v powr (- 0.608)"
  define h where "h = (e * y + f) * (c + d * y)\<^sup>2 / y"
  note k = extraction_constants_Fin [OF i v(1), folded a_def b_def c_def d_def e_def f_def]
  have b: "b \<noteq> 0" by (simp add: b_def)
  have cd': "c + d * y \<noteq> 0" using cd unfolding k by simp
  from getCu_aq_real [OF y b, of e f c d a] aq
  have "0 \<le> (2 * a * b - h) * (2 * a * b - h) - 4 * b\<^sup>2 * a\<^sup>2"
    and "x = (h - 2 * a * b - sqrt ((2 * a * b - h) * (2 * a * b - h) - 4 * b\<^sup>2 * a\<^sup>2)) / (2 * b\<^sup>2)"
    unfolding k Let_def h_def [symmetric] by (auto split: if_splits)
  with x have "0 \<le> h" by (intro aqueous_positive_h_nonneg [OF _ _ b, of a h]) simp_all
  then have "0 \<le> (e * y + f) * (c + d * y)\<^sup>2" using y by (simp add: h_def zero_le_divide_iff)
  moreover have "0 < (c + d * y)\<^sup>2" using cd' by simp
  ultimately have "0 \<le> e * y + f" by (simp add: zero_le_mult_iff)
  then have "Fin 0 \<le> e_ex (extraction_constants i (Fin v)) * Fin y
                       + f_ex (extraction_constants i (Fin v))"
    unfolding k by simp
  from round_trip_lower_range [OF i v y this aq x] show ?thesis .
qed

end
